theory Spec2Isabelle
  imports Complex_Main "HOL-Library.Log_Nat" "HOL-Library.Multiset"
    "HOL-Library.Product_Lexorder" "HOL-Library.List_Lexorder" "HOL-Library.Char_ord"
begin

section \<open>Floating point\<close>

text \<open>
  Python's \<open>float\<close> and numpy's \<open>float64\<close> are IEEE 754 binary64. A finite value is the
  rational it denotes (the two zeros are not told apart); every operation computes the
  exact result and rounds it to the nearest binary64 value, ties to even.
\<close>

datatype pyfloat = Finite rat | PosInf | NegInf | NaN

definition round_half_even :: "rat \<Rightarrow> int" where
  "round_half_even x =
     (let f = \<lfloor>x\<rfloor>; d = x - of_int f
      in if d < 1 / 2 then f else if 1 / 2 < d then f + 1 else if even f then f else f + 1)"

text \<open>\<open>ilog2 x\<close> is the integer \<open>e\<close> with \<open>2^e \<le> x < 2^(e+1)\<close>, for \<open>x > 0\<close>.\<close>

definition ilog2 :: "rat \<Rightarrow> int" where
  "ilog2 x =
     (let e = bitlen (fst (quotient_of x)) - bitlen (snd (quotient_of x))
      in if 2 powi e \<le> x then e else e - 1)"

text \<open>The spacing of binary64 values at \<open>a > 0\<close>: 53 significant bits, exponent at least -1022.\<close>

definition ulp :: "rat \<Rightarrow> rat" where
  "ulp a = 2 powi (max (ilog2 a) (- 1022) - 52)"

definition round_pos :: "rat \<Rightarrow> rat" where
  "round_pos a = of_int (round_half_even (a / ulp a)) * ulp a"

definition round_nearest :: "rat \<Rightarrow> rat" where
  "round_nearest x = (if x = 0 then 0 else if x < 0 then - round_pos (- x) else round_pos x)"

definition overflow :: "rat \<Rightarrow> pyfloat" where
  "overflow y =
     (if 2 powi 1024 \<le> y then PosInf else if y \<le> - (2 powi 1024) then NegInf else Finite y)"

definition fl64 :: "rat \<Rightarrow> pyfloat" where
  "fl64 x = overflow (round_nearest x)"

definition float_of_int :: "int \<Rightarrow> pyfloat" where
  "float_of_int n = fl64 (of_int n)"

fun fadd :: "pyfloat \<Rightarrow> pyfloat \<Rightarrow> pyfloat" where
  "fadd (Finite a) (Finite b) = fl64 (a + b)"
| "fadd NaN _ = NaN"
| "fadd _ NaN = NaN"
| "fadd PosInf NegInf = NaN"
| "fadd NegInf PosInf = NaN"
| "fadd PosInf _ = PosInf"
| "fadd _ PosInf = PosInf"
| "fadd NegInf _ = NegInf"
| "fadd _ NegInf = NegInf"

definition inf_of_sign :: "bool \<Rightarrow> pyfloat" where
  "inf_of_sign positive = (if positive then PosInf else NegInf)"

fun fmul :: "pyfloat \<Rightarrow> pyfloat \<Rightarrow> pyfloat" where
  "fmul (Finite a) (Finite b) = fl64 (a * b)"
| "fmul NaN _ = NaN"
| "fmul _ NaN = NaN"
| "fmul (Finite a) PosInf = (if a = 0 then NaN else inf_of_sign (0 < a))"
| "fmul (Finite a) NegInf = (if a = 0 then NaN else inf_of_sign (a < 0))"
| "fmul PosInf (Finite b) = (if b = 0 then NaN else inf_of_sign (0 < b))"
| "fmul NegInf (Finite b) = (if b = 0 then NaN else inf_of_sign (b < 0))"
| "fmul PosInf PosInf = PosInf"
| "fmul PosInf NegInf = NegInf"
| "fmul NegInf PosInf = NegInf"
| "fmul NegInf NegInf = PosInf"

text \<open>Division as numpy does it: a zero divisor gives an infinity or NaN, not an exception.\<close>

fun fdiv :: "pyfloat \<Rightarrow> pyfloat \<Rightarrow> pyfloat" where
  "fdiv (Finite a) (Finite b) =
     (if b = 0 then (if a = 0 then NaN else inf_of_sign (0 < a)) else fl64 (a / b))"
| "fdiv NaN _ = NaN"
| "fdiv _ NaN = NaN"
| "fdiv (Finite a) _ = Finite 0"
| "fdiv PosInf (Finite b) = inf_of_sign (0 \<le> b)"
| "fdiv NegInf (Finite b) = inf_of_sign (b < 0)"
| "fdiv _ _ = NaN"

text \<open>The comparison \<open><=\<close>: false as soon as one side is NaN.\<close>

fun fle :: "pyfloat \<Rightarrow> pyfloat \<Rightarrow> bool" where
  "fle NaN _ = False"
| "fle _ NaN = False"
| "fle NegInf _ = True"
| "fle _ PosInf = True"
| "fle (Finite a) (Finite b) = (a \<le> b)"
| "fle PosInf _ = False"
| "fle _ NegInf = False"

text \<open>The finite values: every finite binary64 value is below \<open>2^1024\<close> in magnitude.\<close>

fun in_range :: "pyfloat \<Rightarrow> bool" where
  "in_range (Finite a) = (\<bar>a\<bar> < 2 powi 1024)"
| "in_range _ = False"

text \<open>\<open>numpy.rint\<close>: the nearest integer, ties to even; NaN and the infinities stay.\<close>

fun rint :: "pyfloat \<Rightarrow> pyfloat" where
  "rint (Finite a) = Finite (of_int (round_half_even a))"
| "rint x = x"

text \<open>
  \<open>round(x, decimals)\<close> on a \<open>numpy.float64\<close>, for \<open>decimals\<close> from 0 to 22 (the powers of
  ten that are floats): numpy multiplies by the power of ten, takes \<open>rint\<close> and divides,
  each step in floating point; for \<open>decimals = 0\<close> it only takes \<open>rint\<close>. This is the
  \<open>round\<close> of line 83: at its one call (line 202) \<open>season_avg\<close> and \<open>recent_avg\<close> are
  \<open>numpy.float64\<close> values, so the sum is one too.
\<close>

definition np_round :: "pyfloat \<Rightarrow> nat \<Rightarrow> pyfloat" where
  "np_round x decimals =
     (if decimals = 0 then rint x
      else fdiv (rint (fmul x (Finite (10 ^ decimals)))) (Finite (10 ^ decimals)))"

fun is_finite :: "pyfloat \<Rightarrow> bool" where
  "is_finite (Finite a) = True"
| "is_finite _ = False"

section \<open>64-bit integers\<close>

text \<open>
  The integer columns are \<open>int64\<close>. A sum of \<open>int64\<close> values wraps around, and the cast of
  a float that does not fit gives the least \<open>int64\<close>.
\<close>

definition wrap64 :: "int \<Rightarrow> int" where
  "wrap64 x = (x + 2 ^ 63) mod 2 ^ 64 - 2 ^ 63"

definition sum64 :: "int list \<Rightarrow> int" where
  "sum64 xs = foldl (\<lambda>a x. wrap64 (a + x)) 0 xs"

section \<open>Data model\<close>

text \<open>
  A cell of the provider's optional \<open>rbi\<close> column: a missing value (\<open>None\<close> or NaN), a text,
  or a number, which may be an infinity.
\<close>

datatype cell = Null | Text string | Num pyfloat

text \<open>
  One row of the frame returned by \<open>statcast_batter\<close>. Only the columns that
  \<open>get_statcast_data\<close> and the aggregation read are named; every other column of the row
  lives in the record's extension part. \<open>events = None\<close> is a null outcome. Dates are day
  ordinals.
\<close>

record raw_event =
  game_date :: nat
  inning_topbot :: string
  home_team :: string
  away_team :: string
  events :: "string option"
  rbi :: cell

text \<open>The columns that \<open>get_statcast_data\<close> adds to each row.\<close>

record classified_event = raw_event +
  player_team :: string
  opponent :: string
  c_1B :: int
  c_2B :: int
  c_3B :: int
  c_HR :: int
  c_TB :: int
  c_H :: int
  c_RBI :: int

text \<open>A data frame: the declared column names and the rows.\<close>

record 'r frame =
  columns :: "string list"
  rows :: "'r list"

datatype error = KeyError "string list" | ValueError | IntCastingNaNError

section \<open>Event classifier: \<open>get_statcast_data\<close>\<close>

text \<open>\<open>df.empty\<close>: some axis has length 0.\<close>

definition empty :: "'r frame \<Rightarrow> bool" where
  "empty df = (rows df = [] \<or> columns df = [])"

text \<open>
  \<open>df.apply(f, axis=1)\<close> on a frame with rows: \<open>f\<close> on each row in turn; the first
  exception ends it.
\<close>

fun apply_rows :: "('a \<Rightarrow> error + 'b) \<Rightarrow> 'a list \<Rightarrow> error + 'b list" where
  "apply_rows f [] = Inr []"
| "apply_rows f (x # xs) =
     (case f x of
        Inl e \<Rightarrow> Inl e
      | Inr y \<Rightarrow> (case apply_rows f xs of Inl e \<Rightarrow> Inl e | Inr ys \<Rightarrow> Inr (y # ys)))"

text \<open>
  The lambdas of lines 30 and 32 on one row, \<open>own\<close> for the player's team: reading a
  column that the frame does not have raises \<open>KeyError\<close>.
\<close>

definition team_lambda :: "bool \<Rightarrow> string list \<Rightarrow> raw_event \<Rightarrow> error + string" where
  "team_lambda own cols r =
     (if ''inning_topbot'' \<notin> set cols then Inl (KeyError [''inning_topbot''])
      else if (inning_topbot r = ''Top'') = own
      then (if ''away_team'' \<notin> set cols then Inl (KeyError [''away_team''])
            else Inr (away_team r))
      else (if ''home_team'' \<notin> set cols then Inl (KeyError [''home_team''])
            else Inr (home_team r)))"

text \<open>
  Lines 29 and 31. On a frame without rows \<open>apply\<close> tries the lambda once on a row of NaN,
  which takes the branch that is not \<open>Top\<close>; when that raises, \<open>apply\<close> returns the frame
  itself, and assigning a frame to one column raises \<open>ValueError\<close>.
\<close>

definition team_column :: "bool \<Rightarrow> string list \<Rightarrow> raw_event list \<Rightarrow> error + string list" where
  "team_column own cols rs =
     (if rs = []
      then (if ''inning_topbot'' \<in> set cols
               \<and> (if own then ''home_team'' else ''away_team'') \<in> set cols
            then Inr [] else Inl ValueError)
      else apply_rows (team_lambda own cols) rs)"

text \<open>\<open>(series == label).astype(int)\<close> on one row.\<close>

definition flag :: "string option \<Rightarrow> string \<Rightarrow> int" where
  "flag ev label = (if ev = Some label then 1 else 0)"

text \<open>
  \<open>pd.to_numeric(..., errors="coerce")\<close> on one cell. The conversion of a text is pandas'
  own and is a parameter here: \<open>parse s\<close> is the number the text \<open>s\<close> denotes (\<open>'inf'\<close>
  denotes an infinity), \<open>None\<close> when it denotes none, which \<open>coerce\<close> turns into NaN.
\<close>

definition to_numeric :: "(string \<Rightarrow> pyfloat option) \<Rightarrow> cell \<Rightarrow> pyfloat" where
  "to_numeric parse c =
     (case c of
        Null \<Rightarrow> NaN
      | Num x \<Rightarrow> x
      | Text s \<Rightarrow> (case parse s of None \<Rightarrow> NaN | Some x \<Rightarrow> x))"

definition fillna :: "pyfloat \<Rightarrow> pyfloat \<Rightarrow> pyfloat" where
  "fillna d x = (if x = NaN then d else x)"

text \<open>
  \<open>astype(int)\<close> on a float column: a value that is not finite raises; a finite value
  is truncated towards zero, and gives the least \<open>int64\<close> when it does not fit.
\<close>

definition truncate_int64 :: "rat \<Rightarrow> int" where
  "truncate_int64 a =
     (let t = (if a < 0 then - \<lfloor>- a\<rfloor> else \<lfloor>a\<rfloor>)
      in if - (2 ^ 63) \<le> t \<and> t < 2 ^ 63 then t else - (2 ^ 63))"

fun astype_int :: "pyfloat \<Rightarrow> int" where
  "astype_int (Finite a) = truncate_int64 a"
| "astype_int _ = - (2 ^ 63)"

definition astype_int_series :: "pyfloat list \<Rightarrow> error + int list" where
  "astype_int_series xs =
     (if filter (\<lambda>x. \<not> is_finite x) xs \<noteq> [] then Inl IntCastingNaNError
      else Inr (map astype_int xs))"

text \<open>Lines 43 to 46: the column \<open>RBI\<close>.\<close>

definition rbi_column ::
    "(string \<Rightarrow> pyfloat option) \<Rightarrow> string list \<Rightarrow> raw_event list \<Rightarrow> error + int list" where
  "rbi_column parse cols rs =
     (if ''rbi'' \<in> set cols
      then astype_int_series (map (\<lambda>r. fillna (Finite 0) (to_numeric parse (rbi r))) rs)
      else Inr (map (\<lambda>r. 0) rs))"

text \<open>
  The values that the lambdas of lines 30 and 32 and the conversions of line 44 give on one
  row when they raise nothing.
\<close>

definition team_value :: "bool \<Rightarrow> raw_event \<Rightarrow> string" where
  "team_value own r = (if (inning_topbot r = ''Top'') = own then away_team r else home_team r)"

definition rbi_value :: "(string \<Rightarrow> pyfloat option) \<Rightarrow> string list \<Rightarrow> raw_event \<Rightarrow> int" where
  "rbi_value parse cols r =
     (if ''rbi'' \<in> set cols then astype_int (fillna (Finite 0) (to_numeric parse (rbi r))) else 0)"

text \<open>Lines 35 to 40 on one row, with the values of its three other new columns.\<close>

definition classify :: "raw_event \<Rightarrow> string \<times> string \<times> int \<Rightarrow> classified_event" where
  "classify r new =
     (let b1 = flag (events r) ''single'';
          b2 = flag (events r) ''double'';
          b3 = flag (events r) ''triple'';
          hr = flag (events r) ''home_run''
      in raw_event.extend r
           (classified_event.fields (fst new) (fst (snd new))
              b1 b2 b3 hr
              (b1 + b2 * 2 + b3 * 3 + hr * 4)
              (b1 + b2 + b3 + hr)
              (snd (snd new))))"

text \<open>Assigning a column: a new name is appended, an existing one keeps its place.\<close>

definition add_column :: "string \<Rightarrow> string list \<Rightarrow> string list" where
  "add_column c cols = (if c \<in> set cols then cols else cols @ [c])"

definition new_columns :: "string list" where
  "new_columns = [''player_team'', ''opponent'', ''1B'', ''2B'', ''3B'', ''HR'', ''TB'', ''H'', ''RBI'']"

definition empty_columns :: "string list" where
  "empty_columns = [''game_date'', ''1B'', ''2B'', ''3B'', ''HR'', ''TB'', ''H'', ''RBI'', ''opponent'']"

text \<open>
  \<open>get_statcast_data\<close>, from the frame the provider returned (line 21) on. The early return
  of line 24 declares nine columns and no row. Otherwise the rows with a null outcome are
  dropped and the new columns are computed one after the other, as lines 29 to 46 do;
  the first exception is the result.
\<close>

definition get_statcast_data ::
    "(string \<Rightarrow> pyfloat option) \<Rightarrow> raw_event frame \<Rightarrow> error + classified_event frame" where
  "get_statcast_data parse df =
     (if empty df \<or> ''events'' \<notin> set (columns df)
      then Inr \<lparr>columns = empty_columns, rows = []\<rparr>
      else
        let rs = filter (\<lambda>r. events r \<noteq> None) (rows df) in
        case team_column True (columns df) rs of
          Inl e \<Rightarrow> Inl e
        | Inr player_team_col \<Rightarrow>
           (case team_column False (columns df) rs of
              Inl e \<Rightarrow> Inl e
            | Inr opponent_col \<Rightarrow>
               (case rbi_column parse (columns df) rs of
                  Inl e \<Rightarrow> Inl e
                | Inr rbi_col \<Rightarrow>
                    Inr \<lparr>columns = foldl (\<lambda>cs c. add_column c cs) (columns df) new_columns,
                         rows = map2 classify rs
                           (zip player_team_col (zip opponent_col rbi_col))\<rparr>)))"

text \<open>
  Line 216 first reads \<open>statcast_df["events"]\<close>: a frame that does not declare the column
  raises \<open>KeyError\<close>.
\<close>

definition events_column :: "classified_event frame \<Rightarrow> error + string option list" where
  "events_column statcast_df =
     (if ''events'' \<in> set (columns statcast_df) then Inr (map events (rows statcast_df))
      else Inl (KeyError [''events'']))"

section \<open>Aggregator: the per-game lines (lines 164 and 165)\<close>

text \<open>One row of \<open>game_stats\<close>: the key of the group and the seven summed columns.\<close>

record game_stat_line =
  g_date :: nat
  g_opponent :: string
  g_1B :: int
  g_2B :: int
  g_3B :: int
  g_HR :: int
  g_TB :: int
  g_H :: int
  g_RBI :: int

definition group_key :: "classified_event \<Rightarrow> nat \<times> string" where
  "group_key e = (game_date e, opponent e)"

text \<open>The keys of \<open>groupby(["game_date", "opponent"])\<close>: each once, in ascending order.\<close>

definition group_keys :: "classified_event list \<Rightarrow> (nat \<times> string) list" where
  "group_keys evs = sort (remdups (map group_key evs))"

text \<open>The sum of one column over the rows of a group, in \<open>int64\<close>.\<close>

definition col_sum :: "(classified_event \<Rightarrow> int) \<Rightarrow> classified_event list \<Rightarrow> int" where
  "col_sum f evs = sum64 (map f evs)"

definition group_line :: "classified_event list \<Rightarrow> nat \<times> string \<Rightarrow> game_stat_line" where
  "group_line evs k =
     (let g = filter (\<lambda>e. group_key e = k) evs
      in \<lparr>g_date = fst k, g_opponent = snd k,
          g_1B = col_sum c_1B g, g_2B = col_sum c_2B g, g_3B = col_sum c_3B g,
          g_HR = col_sum c_HR g, g_TB = col_sum c_TB g, g_H = col_sum c_H g,
          g_RBI = col_sum c_RBI g\<rparr>)"

text \<open>The key of a line of \<open>game_stats\<close>.\<close>

definition line_key :: "game_stat_line \<Rightarrow> nat \<times> string" where
  "line_key l = (g_date l, g_opponent l)"

definition key_columns :: "string list" where
  "key_columns = [''game_date'', ''opponent'']"

definition stat_columns :: "string list" where
  "stat_columns = [''1B'', ''2B'', ''3B'', ''HR'', ''TB'', ''H'', ''RBI'']"

text \<open>
  \<open>df.groupby(["game_date", "opponent"])[[...]].sum().reset_index()\<close>: a key that is not a
  column raises \<open>KeyError\<close>, and so does the selection of a column that does not exist.
\<close>

definition groupby_sum :: "classified_event frame \<Rightarrow> error + game_stat_line list" where
  "groupby_sum df =
     (case filter (\<lambda>c. c \<notin> set (columns df)) key_columns of
        k # _ \<Rightarrow> Inl (KeyError [k])
      | [] \<Rightarrow>
         (case filter (\<lambda>c. c \<notin> set (columns df)) stat_columns of
            m # ms \<Rightarrow> Inl (KeyError (m # ms))
          | [] \<Rightarrow> Inr (map (group_line (rows df)) (group_keys (rows df)))))"

text \<open>
  \<open>sort_values("game_date")\<close> and \<open>sort_values("game_date", ascending=False)\<close>. pandas sorts
  with an algorithm that is not stable, so the order of rows of equal date is not fixed:
  any rearrangement of the rows that is in order of date may be the result, and these
  predicates say what a result is.
\<close>

definition sort_values :: "game_stat_line list \<Rightarrow> game_stat_line list \<Rightarrow> bool" where
  "sort_values ls out = (mset out = mset ls \<and> sorted (map g_date out))"

definition sort_values_desc :: "game_stat_line list \<Rightarrow> game_stat_line list \<Rightarrow> bool" where
  "sort_values_desc ls out = (mset out = mset ls \<and> sorted (rev (map g_date out)))"

definition head :: "nat \<Rightarrow> 'a list \<Rightarrow> 'a list" where
  "head n xs = take n xs"

text \<open>\<open>ls.sort_values("game_date", ascending=False).head(k).sort_values("game_date")\<close>.\<close>

definition last_games :: "nat \<Rightarrow> game_stat_line list \<Rightarrow> game_stat_line list \<Rightarrow> bool" where
  "last_games k ls out = (\<exists>d. sort_values_desc ls d \<and> sort_values (head k d) out)"

text \<open>Lines 164 and 165: \<open>res\<close> is a result of computing \<open>game_stats\<close> from \<open>df_filtered\<close>.\<close>

definition game_stats ::
    "classified_event frame \<Rightarrow> error + game_stat_line list \<Rightarrow> bool" where
  "game_stats df_filtered res =
     (case groupby_sum df_filtered of
        Inl e \<Rightarrow> res = Inl e
      | Inr ls \<Rightarrow> (\<exists>out. last_games 10 ls out \<and> res = Inr out))"

section \<open>Formatting\<close>

definition digits :: string where
  "digits = ''0123456789''"

fun show_nat :: "nat \<Rightarrow> string" where
  "show_nat n = (if n < 10 then [digits ! n] else show_nat (n div 10) @ [digits ! (n mod 10)])"

declare show_nat.simps [simp del]

definition show_int :: "int \<Rightarrow> string" where
  "show_int i = (if i < 0 then ''-'' @ show_nat (nat (- i)) else show_nat (nat i))"

text \<open>The format \<open>:.0f\<close>: the exact value rounded to an integer, ties to even.\<close>

fun format_0f :: "pyfloat \<Rightarrow> string" where
  "format_0f (Finite a) =
     (if a < 0 then ''-'' @ show_nat (nat (- round_half_even a))
      else show_nat (nat (round_half_even a)))"
| "format_0f PosInf = ''inf''"
| "format_0f NegInf = ''-inf''"
| "format_0f NaN = ''nan''"

section \<open>Trend evaluator: \<open>calculate_hit_rates\<close>\<close>

text \<open>The categories of \<open>category_display_map\<close>, each with its column of \<open>game_stats\<close>.\<close>

datatype category = Singles | Doubles | Triples | Home_Runs | Total_Bases | Hits

fun column_name :: "category \<Rightarrow> string" where
  "column_name Singles = ''1B''"
| "column_name Doubles = ''2B''"
| "column_name Triples = ''3B''"
| "column_name Home_Runs = ''HR''"
| "column_name Total_Bases = ''TB''"
| "column_name Hits = ''H''"

fun g_col :: "category \<Rightarrow> game_stat_line \<Rightarrow> int" where
  "g_col Singles = g_1B"
| "g_col Doubles = g_2B"
| "g_col Triples = g_3B"
| "g_col Home_Runs = g_HR"
| "g_col Total_Bases = g_TB"
| "g_col Hits = g_H"

record trend_row =
  Trend :: string
  Last_10 :: string
  Last_5 :: string
  Last_3 :: string

text \<open>\<open>hits = df[category] >= t\<close>.\<close>

definition hits :: "game_stat_line list \<Rightarrow> category \<Rightarrow> int \<Rightarrow> bool list" where
  "hits df cat t = map (\<lambda>g. t \<le> g_col cat g) df"

text \<open>\<open>series.iloc[-n:]\<close> for \<open>n > 0\<close>: the last \<open>n\<close> entries, all of them when there are fewer.\<close>

definition iloc_last :: "nat \<Rightarrow> 'a list \<Rightarrow> 'a list" where
  "iloc_last n xs = drop (length xs - n) xs"

text \<open>\<open>.sum()\<close> of a boolean series: the number of true entries.\<close>

definition series_sum :: "bool list \<Rightarrow> nat" where
  "series_sum bs = length (filter (\<lambda>b. b) bs)"

text \<open>The text of \<open>(s/w)*100\<close> in the format \<open>:.0f\<close>, for a sum \<open>s\<close> and a window \<open>w\<close>.\<close>

definition percent_text :: "nat \<Rightarrow> nat \<Rightarrow> string" where
  "percent_text s w =
     format_0f (fmul (fdiv (float_of_int (int s)) (float_of_int (int w))) (float_of_int 100))"

text \<open>
  One cell of the table, for the window \<open>w\<close>:
  \<open>f"{hits.iloc[-w:].sum()}/w ({(hits.iloc[-w:].sum()/w)*100:.0f}%)"\<close>.
\<close>

definition rate_cell :: "bool list \<Rightarrow> nat \<Rightarrow> string" where
  "rate_cell hs w =
     (let s = series_sum (iloc_last w hs)
      in show_nat s @ ''/'' @ show_nat w @ '' ('' @ percent_text s w @ ''%)'')"

text \<open>The sign \<open>\<ge>\<close> of the label, in UTF-8.\<close>

definition ge_sign :: string where
  "ge_sign = [CHR 0xE2, CHR 0x89, CHR 0xA5]"

definition calculate_hit_rates ::
    "game_stat_line list \<Rightarrow> category \<Rightarrow> int list \<Rightarrow> trend_row list" where
  "calculate_hit_rates df cat trend_values =
     map (\<lambda>t. let hs = hits df cat t
              in \<lparr>Trend = column_name cat @ '' '' @ ge_sign @ '' '' @ show_int t,
                  Last_10 = rate_cell hs 10,
                  Last_5 = rate_cell hs 5,
                  Last_3 = rate_cell hs 3\<rparr>)
         trend_values"

text \<open>
  The table as the specification words it: a game is a hit when its value is at least the
  threshold, the count is taken over the last \<open>w\<close> games, and the percentage is
  \<open>100 * count / w\<close> rounded to the nearest integer, the denominator being \<open>w\<close> itself.
\<close>

definition spec_hit_count :: "game_stat_line list \<Rightarrow> category \<Rightarrow> int \<Rightarrow> nat \<Rightarrow> nat" where
  "spec_hit_count df cat t w =
     length (filter (\<lambda>g. t \<le> g_col cat g) (drop (length df - w) df))"

definition nearest_percent :: "nat \<Rightarrow> nat \<Rightarrow> nat" where
  "nearest_percent c w = (200 * c + w) div (2 * w)"

definition spec_cell :: "game_stat_line list \<Rightarrow> category \<Rightarrow> int \<Rightarrow> nat \<Rightarrow> string" where
  "spec_cell df cat t w =
     show_nat (spec_hit_count df cat t w) @ ''/'' @ show_nat w @ '' ('' @
       show_nat (nearest_percent (spec_hit_count df cat t w) w) @ ''%)''"

section \<open>Predictor: \<open>predict_next_game_stat\<close> and its caller\<close>

text \<open>The literals 0.4, 0.3, 0.3 denote the nearest floats.\<close>

definition weights :: "pyfloat list" where
  "weights = [fl64 (4 / 10), fl64 (3 / 10), fl64 (3 / 10)]"

definition predict_next_game_stat :: "pyfloat \<Rightarrow> pyfloat \<Rightarrow> pyfloat \<Rightarrow> pyfloat" where
  "predict_next_game_stat season_avg vs_team_avg recent_avg =
     np_round
       (fadd (fadd (fmul season_avg (weights ! 0)) (fmul vs_team_avg (weights ! 1)))
          (fmul recent_avg (weights ! 2)))
       2"



text \<open>\<open>Series.mean()\<close> of an integer column: NaN when the column has no row.\<close>

definition mean :: "int list \<Rightarrow> pyfloat" where
  "mean xs =
     (if xs = [] then NaN
      else fdiv (float_of_int (sum_list xs)) (float_of_int (int (length xs))))"

fun c_col :: "category \<Rightarrow> classified_event \<Rightarrow> int" where
  "c_col Singles = c_1B"
| "c_col Doubles = c_2B"
| "c_col Triples = c_3B"
| "c_col Home_Runs = c_HR"
| "c_col Total_Bases = c_TB"
| "c_col Hits = c_H"

text \<open>\<open>df.groupby("game_date")[[cat]].sum()[cat]\<close>: the sums of one column, one per date.\<close>

definition date_sums :: "category \<Rightarrow> classified_event list \<Rightarrow> int list" where
  "date_sums cat evs =
     map (\<lambda>d. sum64 (map (c_col cat) (filter (\<lambda>e. game_date e = d) evs)))
       (sort (remdups (map game_date evs)))"

text \<open>Lines 199 to 202, for one category.\<close>

definition stat_value ::
    "classified_event frame \<Rightarrow> classified_event frame \<Rightarrow> game_stat_line list \<Rightarrow> category
      \<Rightarrow> pyfloat" where
  "stat_value statcast_df df_filtered gs cat =
     (let season_avg = mean (date_sums cat (rows statcast_df));
          vs_team_avg = (if \<not> empty df_filtered then mean (date_sums cat (rows df_filtered))
                         else float_of_int 0);
          recent_avg = mean (map (g_col cat) gs)
      in predict_next_game_stat season_avg vs_team_avg recent_avg)"

definition categories :: "category list" where
  "categories = [Singles, Doubles, Triples, Home_Runs, Total_Bases]"

text \<open>
  \<open>Series.str.contains(pat, case=False, na=False)\<close> on one value, for a pattern without
  regular-expression metacharacters: the pattern occurs in the value, letter case ignored.
\<close>

definition lower :: "char \<Rightarrow> char" where
  "lower c = (let n = of_char c :: nat in if 65 \<le> n \<and> n \<le> 90 then char_of (n + 32) else c)"

fun is_prefix :: "string \<Rightarrow> string \<Rightarrow> bool" where
  "is_prefix [] ys = True"
| "is_prefix (x # xs) [] = False"
| "is_prefix (x # xs) (y # ys) = (x = y \<and> is_prefix xs ys)"

fun contains :: "string \<Rightarrow> string \<Rightarrow> bool" where
  "contains pat [] = (pat = [])"
| "contains pat (c # cs) = (is_prefix pat (c # cs) \<or> contains pat cs)"

definition str_contains :: "string \<Rightarrow> string \<Rightarrow> bool" where
  "str_contains pat s = contains (map lower pat) (map lower s)"

text \<open>Line 100: the rows whose opponent matches the filter, all rows when the filter is empty.\<close>

definition df_filtered :: "string \<Rightarrow> classified_event frame \<Rightarrow> classified_event frame" where
  "df_filtered opponent_input statcast_df =
     (if opponent_input \<noteq> []
      then statcast_df\<lparr>rows := filter (\<lambda>e. str_contains opponent_input (opponent e))
             (rows statcast_df)\<rparr>
      else statcast_df)"

text \<open>
  Lines 164, 165 and 196 to 202, which run when \<open>opponent_input\<close> is not empty: \<open>res\<close> is a
  result of computing the per-game lines of the filtered rows and, from them, the
  predicted value of each category.
\<close>

definition stat_line ::
    "classified_event frame \<Rightarrow> string \<Rightarrow> error + (category \<times> pyfloat) list \<Rightarrow> bool" where
  "stat_line statcast_df opponent_input res =
     (\<exists>g. game_stats (df_filtered opponent_input statcast_df) g
       \<and> res = (case g of
                  Inl e \<Rightarrow> Inl e
                | Inr gs \<Rightarrow>
                    Inr (map (\<lambda>cat. (cat, stat_value statcast_df
                           (df_filtered opponent_input statcast_df) gs cat)) categories)))"

section \<open>Sample data\<close>

text \<open>
  Two plate appearances of one game, a single and a home run, of a batter of the away
  team; the first has no \<open>rbi\<close> value.
\<close>

definition pa_single :: raw_event where
  "pa_single = \<lparr>game_date = 20, inning_topbot = ''Top'', home_team = ''NYY'',
     away_team = ''LAD'', events = Some ''single'', rbi = Null\<rparr>"

definition pa_home_run :: raw_event where
  "pa_home_run = \<lparr>game_date = 20, inning_topbot = ''Top'', home_team = ''NYY'',
     away_team = ''LAD'', events = Some ''home_run'', rbi = Num (Finite 1)\<rparr>"

definition sample_columns :: "string list" where
  "sample_columns =
     [''game_date'', ''inning_topbot'', ''home_team'', ''away_team'', ''events'', ''rbi'']"

definition sample_frame :: "raw_event frame" where
  "sample_frame = \<lparr>columns = sample_columns, rows = [pa_single, pa_home_run]\<rparr>"

text \<open>What \<open>get_statcast_data\<close> returns for them.\<close>

definition sample_statcast :: "classified_event frame" where
  "sample_statcast =
     \<lparr>columns = sample_columns @ new_columns,
      rows = [classify pa_single (''LAD'', ''NYY'', 0), classify pa_home_run (''LAD'', ''NYY'', 1)]\<rparr>"

text \<open>The same two rows with an \<open>rbi\<close> text and an infinite \<open>rbi\<close> value.\<close>

definition bad_rbi_frame :: "raw_event frame" where
  "bad_rbi_frame =
     \<lparr>columns = sample_columns,
      rows = [pa_single\<lparr>rbi := Text ''abc''\<rparr>, pa_home_run\<lparr>rbi := Num PosInf\<rparr>]\<rparr>"

text \<open>Game lines that only differ in date and home runs.\<close>

definition hr_line :: "nat \<Rightarrow> int \<Rightarrow> game_stat_line" where
  "hr_line d h = \<lparr>g_date = d, g_opponent = ''NYY'', g_1B = 0, g_2B = 0, g_3B = 0, g_HR = h,
     g_TB = 4 * h, g_H = h, g_RBI = h\<rparr>"

definition ten_games :: "game_stat_line list" where
  "ten_games = [hr_line 1 0, hr_line 2 1, hr_line 3 0, hr_line 4 2, hr_line 5 1, hr_line 6 0,
     hr_line 7 0, hr_line 8 1, hr_line 9 0, hr_line 10 3]"

definition sample_games :: "game_stat_line list" where
  "sample_games = [hr_line 1 0, hr_line 2 1, hr_line 3 0, hr_line 4 2, hr_line 5 1]"

section \<open>Event classifier: properties\<close>

lemma classify_simps:
  "c_1B (classify r new) = flag (events r) ''single''"
  "c_2B (classify r new) = flag (events r) ''double''"
  "c_3B (classify r new) = flag (events r) ''triple''"
  "c_HR (classify r new) = flag (events r) ''home_run''"
  "c_TB (classify r new) = flag (events r) ''single'' + flag (events r) ''double'' * 2
      + flag (events r) ''triple'' * 3 + flag (events r) ''home_run'' * 4"
  "c_H (classify r new) = flag (events r) ''single'' + flag (events r) ''double''
      + flag (events r) ''triple'' + flag (events r) ''home_run''"
  "c_RBI (classify r new) = snd (snd new)"
  "opponent (classify r new) = fst (snd new)"
  "player_team (classify r new) = fst new"
  "game_date (classify r new) = game_date r"
  "events (classify r new) = events r"
  "rbi (classify r new) = rbi r"
  by (simp_all add: classify_def Let_def raw_event.extend_def classified_event.fields_def)

lemma classify_truncate: "raw_event.truncate (classify r new) = raw_event.truncate r"
  by (simp add: classify_def Let_def raw_event.extend_def raw_event.truncate_def
      classified_event.fields_def)

lemma truncate_raw [simp]: "raw_event.truncate (r :: raw_event) = r"
  by (cases r) (simp add: raw_event.truncate_def)

lemma apply_rows_map:
  assumes "\<And>x y. f x = Inr y \<Longrightarrow> y = g x"
  shows "apply_rows f xs = Inr ys \<Longrightarrow> ys = map g xs"
proof (induction xs arbitrary: ys)
  case Nil
  then show ?case by simp
next
  case (Cons x xs)
  then show ?case using assms by (auto split: sum.splits)
qed

lemma team_lambda_value: "team_lambda own cols r = Inr t \<Longrightarrow> t = team_value own r"
  by (auto simp: team_lambda_def team_value_def split: if_splits)

lemma team_column_value:
  assumes "team_column own cols rs = Inr ts"
  shows "ts = map (team_value own) rs"
proof (cases "rs = []")
  case True
  then show ?thesis using assms by (simp add: team_column_def split: if_splits)
next
  case False
  then have "apply_rows (team_lambda own cols) rs = Inr ts"
    using assms by (simp add: team_column_def)
  then show ?thesis by (rule apply_rows_map[rotated]) (rule team_lambda_value)
qed

lemma rbi_column_value:
  assumes "rbi_column parse cols rs = Inr xs"
  shows "xs = map (rbi_value parse cols) rs"
  using assms
  by (auto simp: rbi_column_def rbi_value_def astype_int_series_def split: if_splits)

lemma map2_classify:
  "map2 classify rs (zip (map a rs) (zip (map b rs) (map c rs)))
     = map (\<lambda>r. classify r (a r, b r, c r)) rs"
  by (induction rs) simp_all

lemma get_statcast_data_rows:
  assumes "get_statcast_data parse df = Inr out"
  shows "rows out =
    (if empty df \<or> ''events'' \<notin> set (columns df) then []
     else map (\<lambda>r. classify r (team_value True r, team_value False r,
                 rbi_value parse (columns df) r))
               (filter (\<lambda>r. events r \<noteq> None) (rows df)))"
proof (cases "empty df \<or> ''events'' \<notin> set (columns df)")
  case True
  then show ?thesis using assms by (auto simp: get_statcast_data_def)
next
  case False
  define rs where "rs = filter (\<lambda>r. events r \<noteq> None) (rows df)"
  from assms False obtain pt op rb where
    pt: "team_column True (columns df) rs = Inr pt"
    and op: "team_column False (columns df) rs = Inr op"
    and rb: "rbi_column parse (columns df) rs = Inr rb"
    and out: "rows out = map2 classify rs (zip pt (zip op rb))"
    by (auto simp: get_statcast_data_def Let_def rs_def split: sum.splits)
  show ?thesis
    unfolding out team_column_value[OF pt] team_column_value[OF op] rbi_column_value[OF rb]
      map2_classify rs_def using False by simp
qed

lemma flags_of_classify:
  "c_1B (classify r new) \<in> {0, 1} \<and> c_2B (classify r new) \<in> {0, 1}
     \<and> c_3B (classify r new) \<in> {0, 1} \<and> c_HR (classify r new) \<in> {0, 1}
     \<and> (c_1B (classify r new) = 1) = (events (classify r new) = Some ''single'')
     \<and> (c_2B (classify r new) = 1) = (events (classify r new) = Some ''double'')
     \<and> (c_3B (classify r new) = 1) = (events (classify r new) = Some ''triple'')
     \<and> (c_HR (classify r new) = 1) = (events (classify r new) = Some ''home_run'')
     \<and> c_1B (classify r new) + c_2B (classify r new) + c_3B (classify r new)
          + c_HR (classify r new) \<in> {0, 1}
     \<and> c_TB (classify r new) = 1 * c_1B (classify r new) + 2 * c_2B (classify r new)
          + 3 * c_3B (classify r new) + 4 * c_HR (classify r new)
     \<and> c_H (classify r new) = c_1B (classify r new) + c_2B (classify r new)
          + c_3B (classify r new) + c_HR (classify r new)"
  unfolding classify_simps by (simp add: flag_def)

text \<open>
  C3. Every row of the frame that the event classifier returns has each of the four flags
  equal to 0 or 1, each flag is 1 exactly when the outcome label equals its canonical
  label, at most one flag is 1, total bases are 1*1B + 2*2B + 3*3B + 4*HR and hits are
  1B + 2B + 3B + HR.
\<close>

theorem classified_flags:
  assumes "get_statcast_data parse df = Inr out"
  shows "\<forall>e \<in> set (rows out).
     c_1B e \<in> {0, 1} \<and> c_2B e \<in> {0, 1} \<and> c_3B e \<in> {0, 1} \<and> c_HR e \<in> {0, 1}
     \<and> (c_1B e = 1) = (events e = Some ''single'')
     \<and> (c_2B e = 1) = (events e = Some ''double'')
     \<and> (c_3B e = 1) = (events e = Some ''triple'')
     \<and> (c_HR e = 1) = (events e = Some ''home_run'')
     \<and> c_1B e + c_2B e + c_3B e + c_HR e \<in> {0, 1}
     \<and> c_TB e = 1 * c_1B e + 2 * c_2B e + 3 * c_3B e + 4 * c_HR e
     \<and> c_H e = c_1B e + c_2B e + c_3B e + c_HR e"
proof
  fix e assume e: "e \<in> set (rows out)"
  then obtain r new where e': "e = classify r new"
    using get_statcast_data_rows[OF assms] by (auto split: if_splits)
  show "c_1B e \<in> {0, 1} \<and> c_2B e \<in> {0, 1} \<and> c_3B e \<in> {0, 1} \<and> c_HR e \<in> {0, 1}
     \<and> (c_1B e = 1) = (events e = Some ''single'')
     \<and> (c_2B e = 1) = (events e = Some ''double'')
     \<and> (c_3B e = 1) = (events e = Some ''triple'')
     \<and> (c_HR e = 1) = (events e = Some ''home_run'')
     \<and> c_1B e + c_2B e + c_3B e + c_HR e \<in> {0, 1}
     \<and> c_TB e = 1 * c_1B e + 2 * c_2B e + 3 * c_3B e + 4 * c_HR e
     \<and> c_H e = c_1B e + c_2B e + c_3B e + c_HR e"
    unfolding e' by (rule flags_of_classify)
qed

lemma truncate_int64_small [simp]: "truncate_int64 0 = 0" "truncate_int64 1 = 1"
  by (simp_all add: truncate_int64_def)

lemma sample_result: "get_statcast_data parse sample_frame = Inr sample_statcast"
  by (simp add: get_statcast_data_def sample_frame_def sample_columns_def empty_def
      pa_single_def pa_home_run_def team_column_def team_lambda_def rbi_column_def
      astype_int_series_def to_numeric_def fillna_def sample_statcast_def new_columns_def
      add_column_def)

theorem classified_flags_witness:
  "get_statcast_data (\<lambda>s. None) sample_frame = Inr sample_statcast
   \<and> classify pa_home_run (''LAD'', ''NYY'', 1) \<in> set (rows sample_statcast)
   \<and> c_HR (classify pa_home_run (''LAD'', ''NYY'', 1)) = 1
   \<and> c_1B (classify pa_home_run (''LAD'', ''NYY'', 1)) = 0
   \<and> c_TB (classify pa_home_run (''LAD'', ''NYY'', 1)) = 4
   \<and> c_H (classify pa_home_run (''LAD'', ''NYY'', 1)) = 1"
proof -
  have r: "get_statcast_data (\<lambda>s. None) sample_frame = Inr sample_statcast"
    by (rule sample_result)
  have mem: "classify pa_home_run (''LAD'', ''NYY'', 1) \<in> set (rows sample_statcast)"
    by (simp add: sample_statcast_def)
  show ?thesis
    using r mem classified_flags [OF r, THEN bspec, OF mem]
    by (simp add: classify_simps flag_def pa_home_run_def)
qed

text \<open>
  When the classifier returns a frame, every row with an outcome is kept, in order and with
  the fields it came with, and its RBI is 0 when the \<open>rbi\<close> column is absent or the cell is
  missing or does not convert to a number.
\<close>

lemma rbi_default_keeps_record:
  assumes "''events'' \<in> set (columns df)" and "get_statcast_data parse df = Inr out"
  shows "map raw_event.truncate (rows out) = filter (\<lambda>r. events r \<noteq> None) (rows df)
    \<and> (\<forall>e \<in> set (rows out).
          ''rbi'' \<notin> set (columns df) \<or> to_numeric parse (rbi e) = NaN \<longrightarrow> c_RBI e = 0)"
proof -
  have eq: "rows out = map (\<lambda>r. classify r (team_value True r, team_value False r,
                 rbi_value parse (columns df) r))
               (filter (\<lambda>r. events r \<noteq> None) (rows df))"
    using get_statcast_data_rows[OF assms(2)] assms(1) by (auto simp: empty_def)
  show ?thesis
    unfolding eq
    by (auto simp: comp_def classify_truncate classify_simps rbi_value_def fillna_def
        truncate_int64_def)
qed

text \<open>
  C8. A malformed \<open>rbi\<close> cell can cost every record: \<open>to_numeric\<close> keeps an infinite value,
  \<open>fillna(0)\<close> only replaces NaN, and \<open>astype(int)\<close> raises on a value that is not finite. On
  the two sample rows with the \<open>rbi\<close> cells \<open>'abc'\<close> and infinity the classifier raises and
  returns no record at all.
\<close>

theorem malformed_rbi_raises:
  "fillna (Finite 0) (to_numeric parse (Num PosInf)) = PosInf
   \<and> get_statcast_data parse bad_rbi_frame = Inl IntCastingNaNError"
  by (simp add: get_statcast_data_def bad_rbi_frame_def sample_columns_def empty_def
      pa_single_def pa_home_run_def team_column_def team_lambda_def rbi_column_def
      astype_int_series_def to_numeric_def fillna_def)

section \<open>Aggregator: properties\<close>

lemma wrap64_id: "- (2 ^ 63) \<le> x \<Longrightarrow> x < 2 ^ 63 \<Longrightarrow> wrap64 x = x"
  by (simp add: wrap64_def)

lemma wrap64_add_left: "wrap64 (wrap64 a + x) = wrap64 (a + x)"
proof -
  have "(wrap64 a + x + 2 ^ 63) mod 2 ^ 64 = ((a + 2 ^ 63) mod 2 ^ 64 + x) mod (2 ^ 64 :: int)"
    by (simp add: wrap64_def)
  also have "\<dots> = (a + 2 ^ 63 + x) mod 2 ^ 64" by (simp add: mod_add_left_eq)
  finally show ?thesis by (simp add: wrap64_def add.assoc add.commute add.left_commute)
qed

lemma foldl_wrap64:
  "foldl (\<lambda>a x. wrap64 (a + x)) (wrap64 a) xs = wrap64 (a + sum_list xs)"
proof (induction xs arbitrary: a)
  case Nil
  then show ?case by simp
next
  case (Cons x xs)
  have "foldl (\<lambda>a x. wrap64 (a + x)) (wrap64 a) (x # xs)
      = foldl (\<lambda>a x. wrap64 (a + x)) (wrap64 (a + x)) xs"
    by (simp add: wrap64_add_left)
  then show ?case by (simp add: Cons.IH add.assoc)
qed

lemma sum64_eq: "sum64 xs = wrap64 (sum_list xs)"
  using foldl_wrap64[of 0 xs] by (simp add: sum64_def wrap64_def)

lemma sum64_exact:
  "- (2 ^ 63) \<le> sum_list xs \<Longrightarrow> sum_list xs < 2 ^ 63 \<Longrightarrow> sum64 xs = sum_list xs"
  by (simp add: sum64_eq wrap64_id)

lemma group_line_simps [simp]:
  "g_date (group_line evs k) = fst k"
  "g_opponent (group_line evs k) = snd k"
  "line_key (group_line evs k) = k"
  "g_1B (group_line evs k) = col_sum c_1B (filter (\<lambda>e. group_key e = k) evs)"
  "g_2B (group_line evs k) = col_sum c_2B (filter (\<lambda>e. group_key e = k) evs)"
  "g_3B (group_line evs k) = col_sum c_3B (filter (\<lambda>e. group_key e = k) evs)"
  "g_HR (group_line evs k) = col_sum c_HR (filter (\<lambda>e. group_key e = k) evs)"
  "g_TB (group_line evs k) = col_sum c_TB (filter (\<lambda>e. group_key e = k) evs)"
  "g_H (group_line evs k) = col_sum c_H (filter (\<lambda>e. group_key e = k) evs)"
  "g_RBI (group_line evs k) = col_sum c_RBI (filter (\<lambda>e. group_key e = k) evs)"
  by (simp_all add: group_line_def line_key_def Let_def)



lemma groupby_sum_ok:
  assumes "set key_columns \<union> set stat_columns \<subseteq> set (columns df)"
  shows "groupby_sum df = Inr (map (group_line (rows df)) (group_keys (rows df)))"
proof -
  have "filter (\<lambda>c. c \<notin> set (columns df)) key_columns = []"
    and "filter (\<lambda>c. c \<notin> set (columns df)) stat_columns = []"
    using assms by (auto simp: filter_empty_conv)
  then show ?thesis by (simp add: groupby_sum_def)
qed







lemma last_games_Nil: "last_games k [] out = (out = [])"
  by (auto simp: last_games_def sort_values_def sort_values_desc_def head_def)


lemma sample_columns_ok:
  "set key_columns \<union> set stat_columns \<subseteq> set (columns sample_statcast)"
  by (simp add: sample_statcast_def sample_columns_def new_columns_def key_columns_def
      stat_columns_def)


lemma sum64_small [simp]: "sum64 [] = 0" "sum64 [0, 0] = 0" "sum64 [0, 1] = 1"
  "sum64 [1, 0] = 1" "sum64 [1, 1] = 2" "sum64 [1, 4] = 5"
  by (simp_all add: sum64_def wrap64_def)



lemma empty_groupby: "groupby_sum \<lparr>columns = empty_columns, rows = []\<rparr> = Inr []"
  by (simp add: groupby_sum_def empty_columns_def key_columns_def stat_columns_def
      group_keys_def)

text \<open>
  C6. When the provider's frame is empty or has no \<open>events\<close> column, the event classifier
  returns a frame without rows that declares the nine columns of line 24. They include
  every column the aggregation reads, and the aggregation of that frame is the empty
  sequence of per-game lines. They do not include \<open>events\<close>: the projection of line 216,
  which succeeds on the frame of a player with events, raises \<open>KeyError\<close> on this one.
\<close>

theorem empty_result_lacks_events:
  assumes "empty df \<or> ''events'' \<notin> set (columns df)"
  shows "get_statcast_data parse df = Inr \<lparr>columns = empty_columns, rows = []\<rparr>
    \<and> empty_columns
        = [''game_date'', ''1B'', ''2B'', ''3B'', ''HR'', ''TB'', ''H'', ''RBI'', ''opponent'']
    \<and> events_column \<lparr>columns = empty_columns, rows = []\<rparr> = Inl (KeyError [''events''])
    \<and> events_column sample_statcast = Inr [Some ''single'', Some ''home_run'']
    \<and> set key_columns \<union> set stat_columns \<subseteq> set empty_columns
    \<and> game_stats \<lparr>columns = empty_columns, rows = []\<rparr> res = (res = Inr [])"
proof -
  have "get_statcast_data parse df = Inr \<lparr>columns = empty_columns, rows = []\<rparr>"
    using assms by (auto simp: get_statcast_data_def)
  moreover have "events_column \<lparr>columns = empty_columns, rows = []\<rparr> = Inl (KeyError [''events''])"
    by (simp add: events_column_def empty_columns_def)
  moreover have "events_column sample_statcast = Inr [Some ''single'', Some ''home_run'']"
    by (simp add: events_column_def sample_statcast_def sample_columns_def classify_simps
        pa_single_def pa_home_run_def)
  moreover have "set key_columns \<union> set stat_columns \<subseteq> set empty_columns"
    by (simp add: empty_columns_def key_columns_def stat_columns_def)
  moreover have "game_stats \<lparr>columns = empty_columns, rows = []\<rparr> res = (res = Inr [])"
    by (auto simp: game_stats_def empty_groupby last_games_Nil)
  ultimately show ?thesis by (simp add: empty_columns_def)
qed

theorem empty_result_lacks_events_witness:
  "empty \<lparr>columns = sample_columns, rows = [] :: raw_event list\<rparr>
   \<and> get_statcast_data (\<lambda>s. None) \<lparr>columns = sample_columns, rows = []\<rparr>
       = Inr \<lparr>columns = empty_columns, rows = []\<rparr>
   \<and> events_column \<lparr>columns = empty_columns, rows = []\<rparr> = Inl (KeyError [''events''])"
proof -
  have e: "empty \<lparr>columns = sample_columns, rows = [] :: raw_event list\<rparr>"
    by (simp add: empty_def)
  show ?thesis
    using e empty_result_lacks_events [of "\<lparr>columns = sample_columns, rows = []\<rparr>", OF disjI1, OF e]
    by simp
qed



section \<open>Floating point: properties\<close>

lemma ilog2_bounds:
  assumes "0 < x"
  shows "2 powi ilog2 x \<le> x" and "x < 2 powi (ilog2 x + 1)"
proof -
  obtain p q where pq: "quotient_of x = (p, q)" by force
  have q: "0 < q" using quotient_of_denom_pos[OF pq] .
  have x: "x = of_int p / of_int q" using quotient_of_div[OF pq] .
  have p: "0 < p" using assms q unfolding x by (simp add: zero_less_divide_iff)
  define e where "e = bitlen p - bitlen q"
  have bp: "1 \<le> bitlen p" and bq: "1 \<le> bitlen q"
    using p q by (simp_all add: bitlen_alt_def)
  have "of_int p < (2::rat) ^ nat (bitlen p)"
    using bitlen_bounds[OF p] by (metis of_int_less_iff of_int_numeral of_int_power)
  then have p_hi: "of_int p < (2::rat) powi bitlen p"
    using bp by (simp add: power_int_def)
  have "(2::rat) ^ nat (bitlen q - 1) \<le> of_int q"
    using bitlen_bounds[OF q] by (metis of_int_le_iff of_int_numeral of_int_power)
  then have q_lo: "(2::rat) powi (bitlen q - 1) \<le> of_int q"
    using bq by (simp add: power_int_def)
  have "x * of_int q < 2 powi bitlen p" using p_hi q unfolding x by simp
  moreover have "x * 2 powi (bitlen q - 1) \<le> x * of_int q"
    using q_lo assms by (simp add: mult_left_mono)
  ultimately have "x * 2 powi (bitlen q - 1) < 2 powi bitlen p" by linarith
  then have "x < 2 powi bitlen p / 2 powi (bitlen q - 1)"
    by (simp add: pos_less_divide_eq)
  also have "\<dots> = 2 powi (e + 1)"
    unfolding e_def by (simp flip: power_int_diff) (simp add: algebra_simps)
  finally have hi: "x < 2 powi (e + 1)" .
  show "x < 2 powi (ilog2 x + 1)"
  proof (cases "2 powi e \<le> x")
    case True
    then show ?thesis using hi by (simp add: ilog2_def pq e_def)
  next
    case False
    then show ?thesis by (simp add: ilog2_def pq e_def)
  qed
  have "(2::rat) ^ nat (bitlen p - 1) \<le> of_int p"
    using bitlen_bounds[OF p] by (metis of_int_le_iff of_int_numeral of_int_power)
  then have p_lo: "(2::rat) powi (bitlen p - 1) \<le> of_int p"
    using bp by (simp add: power_int_def)
  have "of_int q < (2::rat) ^ nat (bitlen q)"
    using bitlen_bounds[OF q] by (metis of_int_less_iff of_int_numeral of_int_power)
  then have q_hi: "of_int q < (2::rat) powi bitlen q"
    using bq by (simp add: power_int_def)
  have "2 powi (bitlen p - 1) \<le> x * of_int q" using p_lo q unfolding x by simp
  moreover have "x * of_int q \<le> x * 2 powi bitlen q"
    using q_hi assms by (simp add: mult_left_mono)
  ultimately have "2 powi (bitlen p - 1) \<le> x * 2 powi bitlen q" by linarith
  then have "2 powi (bitlen p - 1) / 2 powi bitlen q \<le> x"
    by (simp add: pos_divide_le_eq)
  moreover have "2 powi (bitlen p - 1) / 2 powi bitlen q = (2::rat) powi (e - 1)"
    unfolding e_def by (simp flip: power_int_diff) (simp add: algebra_simps)
  ultimately have lo: "2 powi (e - 1) \<le> x" by simp
  show "2 powi ilog2 x \<le> x"
  proof (cases "2 powi e \<le> x")
    case True
    then show ?thesis by (simp add: ilog2_def pq e_def)
  next
    case False
    then show ?thesis using lo by (simp add: ilog2_def pq e_def)
  qed
qed

lemma pow2_exp_less:
  assumes "(2::rat) powi a \<le> x" and "x < 2 powi (b + 1)"
  shows "a \<le> b"
proof (rule ccontr)
  assume "\<not> a \<le> b"
  then have "b + 1 \<le> a" by simp
  then have "(2::rat) powi (b + 1) \<le> 2 powi a" by (intro power_int_increasing) simp_all
  with assms show False by linarith
qed

lemma ilog2_unique:
  assumes "2 powi e \<le> x" and "x < 2 powi (e + 1)"
  shows "ilog2 x = e"
proof -
  have "0 < x" using assms(1) zero_less_power_int[of "2::rat" e] by linarith
  note b = ilog2_bounds[OF this]
  have "e \<le> ilog2 x" using pow2_exp_less[OF assms(1) b(2)] .
  moreover have "ilog2 x \<le> e" using pow2_exp_less[OF b(1) assms(2)] .
  ultimately show ?thesis by simp
qed

lemma ilog2_mono:
  assumes "0 < x" and "x \<le> y"
  shows "ilog2 x \<le> ilog2 y"
proof -
  have y: "0 < y" using assms by simp
  have "2 powi ilog2 x \<le> y" using ilog2_bounds(1)[OF assms(1)] assms(2) by simp
  then show ?thesis using pow2_exp_less ilog2_bounds(2)[OF y] by blast
qed

lemma round_half_even_of_int [simp]: "round_half_even (of_int n) = n"
  by (simp add: round_half_even_def)

lemma round_half_even_range:
  "round_half_even x = \<lfloor>x\<rfloor> \<or> round_half_even x = \<lfloor>x\<rfloor> + 1"
  by (simp add: round_half_even_def Let_def)

lemma round_half_even_mono:
  assumes "x \<le> y"
  shows "round_half_even x \<le> round_half_even y"
proof (cases "\<lfloor>x\<rfloor> = \<lfloor>y\<rfloor>")
  case True
  then show ?thesis using assms by (auto simp: round_half_even_def Let_def)
next
  case False
  then have "\<lfloor>x\<rfloor> + 1 \<le> \<lfloor>y\<rfloor>" using floor_mono[OF assms] by simp
  then show ?thesis
    using round_half_even_range[of x] round_half_even_range[of y] by auto
qed

lemma round_half_even_ge: "of_int n \<le> x \<Longrightarrow> n \<le> round_half_even x"
  using round_half_even_mono[of "of_int n" x] by simp

lemma round_half_even_le: "x \<le> of_int n \<Longrightarrow> round_half_even x \<le> n"
  using round_half_even_mono[of x "of_int n"] by simp

lemma round_half_even_eq:
  assumes "2 * \<bar>of_int m - x\<bar> < 1"
  shows "round_half_even x = m"
proof -
  have "of_int m - 1 / 2 < x" using assms by (simp add: abs_if split: if_splits)
  moreover have "x < of_int m + 1 / 2" using assms by (simp add: abs_if split: if_splits)
  ultimately
  consider "\<lfloor>x\<rfloor> = m" "x - of_int m < 1 / 2" | "\<lfloor>x\<rfloor> = m - 1" "1 / 2 < x - of_int (m - 1)"
    by (cases "of_int m \<le> x") (auto simp: floor_eq_iff)
  then show ?thesis
    by cases (simp_all add: round_half_even_def Let_def)
qed

lemma ulp_pos: "0 < ulp a"
  by (simp add: ulp_def)

lemma round_pos_upper:
  assumes "0 < a"
  shows "round_pos a \<le> 2 powi (max (ilog2 a) (- 1022) + 1)"
proof -
  define e where "e = max (ilog2 a) (- 1022)"
  have u: "ulp a = 2 powi (e - 52)" by (simp add: ulp_def e_def)
  have "a < 2 powi (ilog2 a + 1)" using ilog2_bounds(2)[OF assms] .
  also have "\<dots> \<le> 2 powi (e + 1)" by (intro power_int_increasing) (simp_all add: e_def)
  finally have "a / ulp a \<le> 2 powi (e + 1) / ulp a"
    using ulp_pos[of a] by (simp add: divide_right_mono)
  also have "\<dots> = 2 powi 53" unfolding u by (simp flip: power_int_diff)
  also have "\<dots> = of_int (2 ^ 53)" by simp
  finally have "round_half_even (a / ulp a) \<le> 2 ^ 53" by (rule round_half_even_le)
  then have "of_int (round_half_even (a / ulp a)) \<le> (of_int (2 ^ 53) :: rat)"
    by (simp only: of_int_le_iff)
  then have "round_pos a \<le> of_int (2 ^ 53) * ulp a"
    unfolding round_pos_def using ulp_pos[of a] by (simp only: mult_le_cancel_right_pos)
  also have "\<dots> = 2 powi 53 * 2 powi (e - 52)" unfolding u by simp
  also have "\<dots> = 2 powi (53 + (e - 52))" by (rule power_int_add[symmetric]) simp
  also have "53 + (e - 52) = e + 1" by simp
  finally show ?thesis unfolding e_def .
qed

lemma round_pos_lower:
  assumes "2 powi e \<le> a" and "- 1022 \<le> e"
  shows "2 powi e \<le> round_pos a"
proof -
  have a: "0 < a" using assms(1) zero_less_power_int[of "2::rat" e] by linarith
  define e' where "e' = max (ilog2 a) (- 1022)"
  have "e \<le> ilog2 a" using pow2_exp_less[OF assms(1) ilog2_bounds(2)[OF a]] .
  then have e': "e' = ilog2 a" using assms(2) by (simp add: e'_def)
  have u: "ulp a = 2 powi (e' - 52)" by (simp add: ulp_def e'_def)
  have "2 powi e' \<le> a" unfolding e' using ilog2_bounds(1)[OF a] .
  then have "2 powi e' / ulp a \<le> a / ulp a"
    using ulp_pos[of a] by (simp add: divide_right_mono)
  moreover have "2 powi e' / ulp a = 2 powi 52" unfolding u by (simp flip: power_int_diff)
  moreover have "(2::rat) powi 52 = of_int (2 ^ 52)" by simp
  ultimately have "of_int (2 ^ 52) \<le> a / ulp a" by simp
  then have "2 ^ 52 \<le> round_half_even (a / ulp a)" by (rule round_half_even_ge)
  then have "(of_int (2 ^ 52) :: rat) \<le> of_int (round_half_even (a / ulp a))"
    by (simp only: of_int_le_iff)
  then have "of_int (2 ^ 52) * ulp a \<le> round_pos a"
    unfolding round_pos_def using ulp_pos[of a] by (simp only: mult_le_cancel_right_pos)
  moreover have "of_int (2 ^ 52) * ulp a = 2 powi 52 * 2 powi (e' - 52)" unfolding u by simp
  moreover have "2 powi 52 * 2 powi (e' - 52) = (2::rat) powi (52 + (e' - 52))"
    by (rule power_int_add[symmetric]) simp
  moreover have "52 + (e' - 52) = e'" by simp
  moreover have "(2::rat) powi e \<le> 2 powi e'"
    using \<open>e \<le> ilog2 a\<close> unfolding e' by (intro power_int_increasing) simp_all
  ultimately show ?thesis by simp
qed

lemma round_pos_nonneg: "0 < a \<Longrightarrow> 0 \<le> round_pos a"
  unfolding round_pos_def using ulp_pos[of a]
  by (intro mult_nonneg_nonneg) (simp_all add: round_half_even_ge)

lemma round_pos_mono:
  assumes "0 < a" and "a \<le> b"
  shows "round_pos a \<le> round_pos b"
proof -
  have b: "0 < b" using assms by simp
  define ea where "ea = max (ilog2 a) (- 1022)"
  define eb where "eb = max (ilog2 b) (- 1022)"
  have le: "ea \<le> eb" using ilog2_mono[OF assms] by (simp add: ea_def eb_def)
  show ?thesis
  proof (cases "ea = eb")
    case True
    then have u: "ulp a = ulp b" by (simp add: ulp_def ea_def eb_def)
    have "a / ulp b \<le> b / ulp b" using assms(2) ulp_pos[of b] by (simp add: divide_right_mono)
    then have "round_half_even (a / ulp b) \<le> round_half_even (b / ulp b)"
      by (rule round_half_even_mono)
    then show ?thesis
      unfolding round_pos_def u using ulp_pos[of b] by (simp add: mult_right_mono)
  next
    case False
    then have lt: "ea + 1 \<le> eb" using le by simp
    then have eb: "eb = ilog2 b" "- 1022 \<le> eb" by (auto simp: eb_def ea_def)
    have "round_pos a \<le> 2 powi (ea + 1)" unfolding ea_def by (rule round_pos_upper[OF assms(1)])
    also have "\<dots> \<le> 2 powi eb" using lt by (intro power_int_increasing) simp_all
    also have "\<dots> \<le> round_pos b"
      using round_pos_lower[OF _ eb(2)] ilog2_bounds(1)[OF b] eb(1) by simp
    finally show ?thesis .
  qed
qed

lemma round_nearest_mono:
  assumes "x \<le> y"
  shows "round_nearest x \<le> round_nearest y"
proof -
  consider "x = 0" | "y = 0" "x < 0" | "x < 0" "0 < y" | "0 < x" | "y < 0"
    using assms by linarith
  then show ?thesis
  proof cases
    case 1
    then show ?thesis using assms round_pos_nonneg[of y] by (auto simp: round_nearest_def)
  next
    case 2
    then show ?thesis using round_pos_nonneg[of "- x"] by (auto simp: round_nearest_def)
  next
    case 3
    then show ?thesis
      using round_pos_nonneg[of "- x"] round_pos_nonneg[of y] by (auto simp: round_nearest_def)
  next
    case 4
    then show ?thesis using assms round_pos_mono[of x y] by (auto simp: round_nearest_def)
  next
    case 5
    then show ?thesis using assms round_pos_mono[of "- y" "- x"] by (auto simp: round_nearest_def)
  qed
qed

lemma overflow_mono: "x \<le> y \<Longrightarrow> fle (overflow x) (overflow y)"
proof -
  have "- ((2::rat) powi 1024) < 2 powi 1024" by simp
  then show "x \<le> y \<Longrightarrow> fle (overflow x) (overflow y)"
    unfolding overflow_def by (auto simp del: power_int_numeral)
qed

lemma fl64_mono: "x \<le> y \<Longrightarrow> fle (fl64 x) (fl64 y)"
  unfolding fl64_def by (intro overflow_mono round_nearest_mono)

lemma ulp_eq:
  assumes "2 powi e \<le> a" and "a < 2 powi (e + 1)" and "- 1022 \<le> e"
  shows "ulp a = 2 powi (e - 52)"
  using ilog2_unique[OF assms(1,2)] assms(3) by (simp add: ulp_def)

lemma fl64_nearest:
  assumes "2 powi e \<le> a" and "a < 2 powi (e + 1)" and "- 1022 \<le> e" and "e \<le> 1022"
    and "y = of_int m * 2 powi (e - 52)" and "2 * \<bar>y - a\<bar> < 2 powi (e - 52)"
  shows "fl64 a = Finite y"
proof -
  have a: "0 < a" using assms(1) zero_less_power_int[of "2::rat" e] by linarith
  have u: "ulp a = 2 powi (e - 52)" using ulp_eq[OF assms(1-3)] .
  have up: "0 < (2::rat) powi (e - 52)" by simp
  have "(of_int m - a / ulp a) * 2 powi (e - 52) = y - a"
    unfolding u assms(5) by (simp add: left_diff_distrib)
  then have "\<bar>of_int m - a / ulp a\<bar> * \<bar>2 powi (e - 52)\<bar> = \<bar>y - a\<bar>"
    by (simp only: abs_mult[symmetric])
  then have "\<bar>of_int m - a / ulp a\<bar> * 2 powi (e - 52) = \<bar>y - a\<bar>"
    using up by (simp only: abs_of_pos)
  then have "(2 * \<bar>of_int m - a / ulp a\<bar>) * 2 powi (e - 52) = 2 * \<bar>y - a\<bar>"
    by (simp only: mult.assoc)
  also have "\<dots> < 1 * 2 powi (e - 52)" using assms(6) by simp
  finally have "2 * \<bar>of_int m - a / ulp a\<bar> < 1"
    using up by (simp only: mult_less_cancel_right_pos)
  then have "round_half_even (a / ulp a) = m" by (rule round_half_even_eq)
  then have rp: "round_pos a = y" by (simp add: round_pos_def u assms(5))
  have "y \<le> 2 powi (max (ilog2 a) (- 1022) + 1)" using round_pos_upper[OF a] rp by simp
  also have "max (ilog2 a) (- 1022) = e" using ilog2_unique[OF assms(1,2)] assms(3) by simp
  also have "(2::rat) powi (e + 1) < 2 powi 1024"
    using assms(4) by (intro power_int_strict_increasing) simp_all
  finally have hi: "y < 2 powi 1024" .
  have "0 \<le> y" using round_pos_nonneg[OF a] rp by simp
  then have "\<not> y \<le> - (2 powi 1024)"
    using zero_less_power_int[of "2::rat" 1024] by linarith
  then show ?thesis using a hi rp by (simp add: fl64_def round_nearest_def overflow_def)
qed

lemma fl64_0 [simp]: "fl64 0 = Finite 0"
  by (simp add: fl64_def round_nearest_def overflow_def)

lemma fl64_of_int_exact:
  assumes "0 \<le> n" and "n < 2 ^ 53"
  shows "fl64 (of_int n) = Finite (of_int n)"
proof (cases "n = 0")
  case True
  then show ?thesis by simp
next
  case False
  then have n: "0 < n" using assms(1) by simp
  then have pos: "0 < (of_int n :: rat)" by simp
  define e where "e = ilog2 (of_int n)"
  note b = ilog2_bounds[OF pos, folded e_def]
  have "(2::rat) powi 0 \<le> of_int n" using n by simp
  then have e0: "0 \<le> e" using pow2_exp_less b(2) by blast
  have "(of_int n :: rat) < of_int (2 ^ 53)" using assms(2) by (simp only: of_int_less_iff)
  then have "(of_int n :: rat) < 2 powi (52 + 1)" by simp
  then have e52: "e \<le> 52" using pow2_exp_less b(1) by blast
  have "(2::rat) powi (52 - e) * 2 powi (e - 52) = 2 powi ((52 - e) + (e - 52))"
    by (rule power_int_add[symmetric]) simp
  moreover have "(2::rat) ^ nat (52 - e) = 2 powi (52 - e)"
    using e52 by (simp add: power_int_def)
  ultimately have one: "(2::rat) ^ nat (52 - e) * 2 powi (e - 52) = 1" by simp
  have y: "(of_int n :: rat) = of_int (n * 2 ^ nat (52 - e)) * 2 powi (e - 52)"
    using one by (simp add: mult.assoc)
  show ?thesis
    by (rule fl64_nearest[OF b(1) b(2) _ _ y]) (use e0 e52 in simp_all)
qed

lemma percent_cert:
  assumes "2 powi e1 \<le> (of_nat c / of_nat w :: rat)"
    and "(of_nat c / of_nat w :: rat) < 2 powi (e1 + 1)"
    and "- 1022 \<le> e1" and "e1 \<le> 1022"
    and "2 * \<bar>of_int m1 * 2 powi (e1 - 52) - (of_nat c / of_nat w :: rat)\<bar> < 2 powi (e1 - 52)"
    and "2 powi e2 \<le> of_int m1 * 2 powi (e1 - 52) * (100 :: rat)"
    and "of_int m1 * 2 powi (e1 - 52) * (100 :: rat) < 2 powi (e2 + 1)"
    and "- 1022 \<le> e2" and "e2 \<le> 1022"
    and "2 * \<bar>of_int m2 * 2 powi (e2 - 52) - of_int m1 * 2 powi (e1 - 52) * (100 :: rat)\<bar>
          < 2 powi (e2 - 52)"
    and "2 * \<bar>of_int P - of_int m2 * (2 :: rat) powi (e2 - 52)\<bar> < 1"
    and "0 \<le> m2" and "c < 2 ^ 53" and "0 < w" and "w < 2 ^ 53"
    and "s = show_nat (nat P)"
  shows "percent_text c w = s"
proof -
  define q :: rat where "q = of_int m1 * 2 powi (e1 - 52)"
  define p :: rat where "p = of_int m2 * 2 powi (e2 - 52)"
  have c: "float_of_int (int c) = Finite (of_nat c)"
    using fl64_of_int_exact[of "int c"] assms(13) by (simp add: float_of_int_def)
  have w: "float_of_int (int w) = Finite (of_nat w)"
    using fl64_of_int_exact[of "int w"] assms(15) by (simp add: float_of_int_def)
  have h: "float_of_int 100 = Finite 100"
    using fl64_of_int_exact[of 100] by (simp add: float_of_int_def)
  have fq: "fl64 (of_nat c / of_nat w) = Finite q"
    by (rule fl64_nearest[OF assms(1-4) q_def]) (use assms(5) in \<open>simp add: q_def\<close>)
  have fp: "fl64 (q * 100) = Finite p"
    unfolding q_def by (rule fl64_nearest[OF assms(6-9) p_def]) (use assms(10) in \<open>simp add: p_def\<close>)
  have "0 \<le> p" using assms(12) by (simp add: p_def)
  moreover have "round_half_even p = P"
    by (rule round_half_even_eq) (use assms(11) in \<open>simp add: p_def\<close>)
  ultimately show ?thesis
    using assms(14) by (simp add: percent_text_def c w h fq fp assms(16))
qed

lemma round_half_even_0 [simp]: "round_half_even 0 = 0"
  using round_half_even_of_int[of 0] by simp

lemma percent_zero: "0 < w \<Longrightarrow> w < 2 ^ 53 \<Longrightarrow> percent_text 0 w = ''0''"
  using fl64_of_int_exact[of "int w"] fl64_of_int_exact[of 100]
  by (simp add: percent_text_def float_of_int_def show_nat.simps[of 0] digits_def)

lemma percent_10_table:
  "percent_text 1 10 = ''10''"
  "percent_text 2 10 = ''20''"
  "percent_text 3 10 = ''30''"
  "percent_text 4 10 = ''40''"
  "percent_text 5 10 = ''50''"
  "percent_text 6 10 = ''60''"
  "percent_text 7 10 = ''70''"
  "percent_text 8 10 = ''80''"
  "percent_text 9 10 = ''90''"
  "percent_text 10 10 = ''100''"
proof -
  show "percent_text 1 10 = ''10''"
    by (rule percent_cert[where ?e1.0 = "-4" and ?m1.0 = 7205759403792794 and ?e2.0 = 3 and ?m2.0 = 5629499534213120 and P = 10])
      (simp_all add: show_nat.simps digits_def)
  show "percent_text 2 10 = ''20''"
    by (rule percent_cert[where ?e1.0 = "-3" and ?m1.0 = 7205759403792794 and ?e2.0 = 4 and ?m2.0 = 5629499534213120 and P = 20])
      (simp_all add: show_nat.simps digits_def)
  show "percent_text 3 10 = ''30''"
    by (rule percent_cert[where ?e1.0 = "-2" and ?m1.0 = 5404319552844595 and ?e2.0 = 4 and ?m2.0 = 8444249301319680 and P = 30])
      (simp_all add: show_nat.simps digits_def)
  show "percent_text 4 10 = ''40''"
    by (rule percent_cert[where ?e1.0 = "-2" and ?m1.0 = 7205759403792794 and ?e2.0 = 5 and ?m2.0 = 5629499534213120 and P = 40])
      (simp_all add: show_nat.simps digits_def)
  show "percent_text 5 10 = ''50''"
    by (rule percent_cert[where ?e1.0 = "-1" and ?m1.0 = 4503599627370496 and ?e2.0 = 5 and ?m2.0 = 7036874417766400 and P = 50])
      (simp_all add: show_nat.simps digits_def)
  show "percent_text 6 10 = ''60''"
    by (rule percent_cert[where ?e1.0 = "-1" and ?m1.0 = 5404319552844595 and ?e2.0 = 5 and ?m2.0 = 8444249301319680 and P = 60])
      (simp_all add: show_nat.simps digits_def)
  show "percent_text 7 10 = ''70''"
    by (rule percent_cert[where ?e1.0 = "-1" and ?m1.0 = 6305039478318694 and ?e2.0 = 6 and ?m2.0 = 4925812092436480 and P = 70])
      (simp_all add: show_nat.simps digits_def)
  show "percent_text 8 10 = ''80''"
    by (rule percent_cert[where ?e1.0 = "-1" and ?m1.0 = 7205759403792794 and ?e2.0 = 6 and ?m2.0 = 5629499534213120 and P = 80])
      (simp_all add: show_nat.simps digits_def)
  show "percent_text 9 10 = ''90''"
    by (rule percent_cert[where ?e1.0 = "-1" and ?m1.0 = 8106479329266893 and ?e2.0 = 6 and ?m2.0 = 6333186975989760 and P = 90])
      (simp_all add: show_nat.simps digits_def)
  show "percent_text 10 10 = ''100''"
    by (rule percent_cert[where ?e1.0 = 0 and ?m1.0 = 4503599627370496 and ?e2.0 = 6 and ?m2.0 = 7036874417766400 and P = 100])
      (simp_all add: show_nat.simps digits_def)
qed

lemma percent_5_table:
  "percent_text 1 5 = ''20''"
  "percent_text 2 5 = ''40''"
  "percent_text 3 5 = ''60''"
  "percent_text 4 5 = ''80''"
  "percent_text 5 5 = ''100''"
proof -
  show "percent_text 1 5 = ''20''"
    by (rule percent_cert[where ?e1.0 = "-3" and ?m1.0 = 7205759403792794 and ?e2.0 = 4 and ?m2.0 = 5629499534213120 and P = 20])
      (simp_all add: show_nat.simps digits_def)
  show "percent_text 2 5 = ''40''"
    by (rule percent_cert[where ?e1.0 = "-2" and ?m1.0 = 7205759403792794 and ?e2.0 = 5 and ?m2.0 = 5629499534213120 and P = 40])
      (simp_all add: show_nat.simps digits_def)
  show "percent_text 3 5 = ''60''"
    by (rule percent_cert[where ?e1.0 = "-1" and ?m1.0 = 5404319552844595 and ?e2.0 = 5 and ?m2.0 = 8444249301319680 and P = 60])
      (simp_all add: show_nat.simps digits_def)
  show "percent_text 4 5 = ''80''"
    by (rule percent_cert[where ?e1.0 = "-1" and ?m1.0 = 7205759403792794 and ?e2.0 = 6 and ?m2.0 = 5629499534213120 and P = 80])
      (simp_all add: show_nat.simps digits_def)
  show "percent_text 5 5 = ''100''"
    by (rule percent_cert[where ?e1.0 = 0 and ?m1.0 = 4503599627370496 and ?e2.0 = 6 and ?m2.0 = 7036874417766400 and P = 100])
      (simp_all add: show_nat.simps digits_def)
qed

lemma percent_3_table:
  "percent_text 1 3 = ''33''"
  "percent_text 2 3 = ''67''"
  "percent_text 3 3 = ''100''"
proof -
  show "percent_text 1 3 = ''33''"
    by (rule percent_cert[where ?e1.0 = "-2" and ?m1.0 = 6004799503160661 and ?e2.0 = 5 and ?m2.0 = 4691249611844266 and P = 33])
      (simp_all add: show_nat.simps digits_def)
  show "percent_text 2 3 = ''67''"
    by (rule percent_cert[where ?e1.0 = "-1" and ?m1.0 = 6004799503160661 and ?e2.0 = 6 and ?m2.0 = 4691249611844266 and P = 67])
      (simp_all add: show_nat.simps digits_def)
  show "percent_text 3 3 = ''100''"
    by (rule percent_cert[where ?e1.0 = 0 and ?m1.0 = 4503599627370496 and ?e2.0 = 6 and ?m2.0 = 7036874417766400 and P = 100])
      (simp_all add: show_nat.simps digits_def)
qed

section \<open>Trend evaluator: properties\<close>

lemma hit_count_eq:
  "series_sum (iloc_last w (hits df cat t)) = spec_hit_count df cat t w"
  by (simp add: series_sum_def iloc_last_def hits_def spec_hit_count_def drop_map filter_map
      comp_def)

lemma spec_hit_count_le: "spec_hit_count df cat t w \<le> min w (length df)"
proof -
  have "spec_hit_count df cat t w \<le> length (drop (length df - w) df)"
    unfolding spec_hit_count_def by (rule length_filter_le)
  moreover have "length df - (length df - w) = min w (length df)" by arith
  ultimately show ?thesis by simp
qed

lemma percent_text_10:
  assumes "c \<le> 10"
  shows "percent_text c 10 = show_nat (nearest_percent c 10)"
proof -
  have "c = 0 \<or> c = 1 \<or> c = 2 \<or> c = 3 \<or> c = 4 \<or> c = 5 \<or> c = 6 \<or> c = 7 \<or> c = 8 \<or> c = 9
      \<or> c = 10"
    using assms by arith
  then show ?thesis
    by (elim disjE)
      (use percent_10_table percent_zero[of 10] in
        \<open>simp_all add: nearest_percent_def show_nat.simps digits_def\<close>)
qed

lemma percent_text_5:
  assumes "c \<le> 5"
  shows "percent_text c 5 = show_nat (nearest_percent c 5)"
proof -
  have "c = 0 \<or> c = 1 \<or> c = 2 \<or> c = 3 \<or> c = 4 \<or> c = 5"
    using assms by arith
  then show ?thesis
    by (elim disjE)
      (use percent_5_table percent_zero[of 5] in
        \<open>simp_all add: nearest_percent_def show_nat.simps digits_def\<close>)
qed

lemma percent_text_3:
  assumes "c \<le> 3"
  shows "percent_text c 3 = show_nat (nearest_percent c 3)"
proof -
  have "c = 0 \<or> c = 1 \<or> c = 2 \<or> c = 3"
    using assms by arith
  then show ?thesis
    by (elim disjE)
      (use percent_3_table percent_zero[of 3] in
        \<open>simp_all add: nearest_percent_def show_nat.simps digits_def\<close>)
qed

lemma rate_cell_spec:
  "rate_cell (hits df cat t) 10 = spec_cell df cat t 10"
  "rate_cell (hits df cat t) 5 = spec_cell df cat t 5"
  "rate_cell (hits df cat t) 3 = spec_cell df cat t 3"
  using spec_hit_count_le[of df cat t 10] spec_hit_count_le[of df cat t 5]
    spec_hit_count_le[of df cat t 3]
  by (simp_all add: rate_cell_def Let_def hit_count_eq spec_cell_def percent_text_10
      percent_text_5 percent_text_3)

lemma nearest_percent_nearest:
  "2 * \<bar>100 * int c - 10 * int (nearest_percent c 10)\<bar> \<le> 10"
  "2 * \<bar>100 * int c - 5 * int (nearest_percent c 5)\<bar> \<le> 5"
  "2 * \<bar>100 * int c - 3 * int (nearest_percent c 3)\<bar> \<le> 3"
proof -
  show "2 * \<bar>100 * int c - 10 * int (nearest_percent c 10)\<bar> \<le> 10"
    unfolding nearest_percent_def by (simp add: zdiv_int)
  show "2 * \<bar>100 * int c - 5 * int (nearest_percent c 5)\<bar> \<le> 5"
    unfolding nearest_percent_def by (simp add: zdiv_int)
  show "2 * \<bar>100 * int c - 3 * int (nearest_percent c 3)\<bar> \<le> 3"
    unfolding nearest_percent_def by (simp add: zdiv_int) presburger
qed

lemma sample_counts:
  "spec_hit_count sample_games Home_Runs 1 10 = 3"
  "spec_hit_count sample_games Home_Runs 1 5 = 3"
  "spec_hit_count sample_games Home_Runs 1 3 = 2"
  by (simp_all add: spec_hit_count_def sample_games_def hr_line_def)

text \<open>
  C1. A game is a hit exactly when its category value is at least the threshold. For each
  threshold the row of the table holds, for each window \<open>W\<close> of 10, 5 and 3, the count of
  hits among the last \<open>W\<close> games, the denominator \<open>W\<close> itself (also when there are fewer
  than \<open>W\<close> games) and \<open>100 * count / W\<close> rounded to the nearest integer. For the home
  runs 0, 1, 0, 2, 1 and the threshold 1 the last three give 2/3 (67%) and the last five
  3/5 (60%).
\<close>

theorem hit_rates_fixed_denominator:
  "hits df cat t = map (\<lambda>g. t \<le> g_col cat g) df
   \<and> calculate_hit_rates df cat ts
     = map (\<lambda>t. \<lparr>Trend = column_name cat @ '' '' @ ge_sign @ '' '' @ show_int t,
                  Last_10 = spec_cell df cat t 10,
                  Last_5 = spec_cell df cat t 5,
                  Last_3 = spec_cell df cat t 3\<rparr>) ts
   \<and> 2 * \<bar>100 * int c - 10 * int (nearest_percent c 10)\<bar> \<le> 10
   \<and> 2 * \<bar>100 * int c - 5 * int (nearest_percent c 5)\<bar> \<le> 5
   \<and> 2 * \<bar>100 * int c - 3 * int (nearest_percent c 3)\<bar> \<le> 3
   \<and> calculate_hit_rates sample_games Home_Runs [1]
     = [\<lparr>Trend = ''HR '' @ ge_sign @ '' 1'', Last_10 = ''3/10 (30%)'',
          Last_5 = ''3/5 (60%)'', Last_3 = ''2/3 (67%)''\<rparr>]"
proof -
  have gen: "calculate_hit_rates df cat ts
     = map (\<lambda>t. \<lparr>Trend = column_name cat @ '' '' @ ge_sign @ '' '' @ show_int t,
                  Last_10 = spec_cell df cat t 10,
                  Last_5 = spec_cell df cat t 5,
                  Last_3 = spec_cell df cat t 3\<rparr>) ts" for df cat ts
    by (simp add: calculate_hit_rates_def Let_def rate_cell_spec)
  have ex: "calculate_hit_rates sample_games Home_Runs [1]
     = [\<lparr>Trend = ''HR '' @ ge_sign @ '' 1'', Last_10 = ''3/10 (30%)'',
          Last_5 = ''3/5 (60%)'', Last_3 = ''2/3 (67%)''\<rparr>]"
    unfolding gen
    by (simp add: spec_cell_def sample_counts nearest_percent_def show_int_def show_nat.simps
        digits_def)
  show ?thesis using gen nearest_percent_nearest ex by (simp add: hits_def)
qed

lemma filter_length_mono:
  "(\<And>x. x \<in> set xs \<Longrightarrow> P x \<Longrightarrow> Q x) \<Longrightarrow> length (filter P xs) \<le> length (filter Q xs)"
  by (induction xs) auto

text \<open>
  C9. For thresholds \<open>t1 \<le> t2\<close> the number of hits counted in a window for \<open>t2\<close> is at
  most the number counted for \<open>t1\<close>: for every window, and so for the last 10, 5 and 3.
\<close>

theorem hit_count_antitone:
  assumes "t1 \<le> t2"
  shows "series_sum (iloc_last w (hits df cat t2)) \<le> series_sum (iloc_last w (hits df cat t1))
    \<and> series_sum (iloc_last 10 (hits df cat t2)) \<le> series_sum (iloc_last 10 (hits df cat t1))
    \<and> series_sum (iloc_last 5 (hits df cat t2)) \<le> series_sum (iloc_last 5 (hits df cat t1))
    \<and> series_sum (iloc_last 3 (hits df cat t2)) \<le> series_sum (iloc_last 3 (hits df cat t1))"
proof -
  have "spec_hit_count df cat t2 w \<le> spec_hit_count df cat t1 w" for w
    unfolding spec_hit_count_def using assms by (intro filter_length_mono) simp
  then show ?thesis by (simp add: hit_count_eq)
qed

theorem hit_count_antitone_witness:
  "(1::int) \<le> 2
   \<and> series_sum (iloc_last 5 (hits sample_games Home_Runs 2)) = 1
   \<and> series_sum (iloc_last 5 (hits sample_games Home_Runs 1)) = 3
   \<and> series_sum (iloc_last 5 (hits sample_games Home_Runs 2))
       \<le> series_sum (iloc_last 5 (hits sample_games Home_Runs 1))"
proof -
  have h: "(1::int) \<le> 2" by simp
  show ?thesis
    using h hit_count_antitone [OF h, of 5 sample_games Home_Runs]
    by (simp add: series_sum_def iloc_last_def hits_def sample_games_def hr_line_def)
qed


lemma hits_zero:
  assumes "\<forall>g \<in> set df. 0 \<le> g_col cat g"
  shows "hits df cat 0 = replicate (length df) True"
  using assms unfolding hits_def by (induction df) simp_all

lemma series_sum_replicate:
  "series_sum (iloc_last w (replicate n True)) = min w n"
proof -
  have "n - (n - w) = min w n" by arith
  then show ?thesis by (simp add: series_sum_def iloc_last_def)
qed

text \<open>
  C7, as stated, fails when there are fewer games than the window: with one game and the
  threshold 0 the game is a hit and the three cells read 10%, 20% and 33%.
\<close>

theorem zero_threshold_counterexample:
  "hits [hr_line 1 0] Home_Runs 0 = [True]
   \<and> calculate_hit_rates [hr_line 1 0] Home_Runs [0]
     = [\<lparr>Trend = ''HR '' @ ge_sign @ '' 0'', Last_10 = ''1/10 (10%)'',
          Last_5 = ''1/5 (20%)'', Last_3 = ''1/3 (33%)''\<rparr>]"
proof -
  have h: "hits [hr_line 1 0] Home_Runs 0 = [True]" by (simp add: hits_def hr_line_def)
  have c10: "rate_cell [True] 10 = ''1/10 (10%)''"
    using percent_10_table(1)
    by (simp add: rate_cell_def series_sum_def iloc_last_def show_nat.simps digits_def)
  have c5: "rate_cell [True] 5 = ''1/5 (20%)''"
    using percent_5_table(1)
    by (simp add: rate_cell_def series_sum_def iloc_last_def show_nat.simps digits_def)
  have c3: "rate_cell [True] 3 = ''1/3 (33%)''"
    using percent_3_table(1)
    by (simp add: rate_cell_def series_sum_def iloc_last_def show_nat.simps digits_def)
  have "calculate_hit_rates [hr_line 1 0] Home_Runs [0]
     = [\<lparr>Trend = ''HR '' @ ge_sign @ '' 0'', Last_10 = ''1/10 (10%)'',
          Last_5 = ''1/5 (20%)'', Last_3 = ''1/3 (33%)''\<rparr>]"
    unfolding calculate_hit_rates_def
    by (simp only: list.map Let_def h c10 c5 c3)
      (simp add: show_int_def show_nat.simps[of 0] digits_def)
  with h show ?thesis by (rule conjI)
qed

lemma show_nat_10 [simp]: "show_nat 10 = ''10''"
  by (simp add: show_nat.simps digits_def)

lemma show_nat_small:
  "show_nat 5 = ''5''" "show_nat 3 = ''3''" "show_nat 2 = ''2''" "show_nat 20 = ''20''"
  "show_nat 40 = ''40''" "show_nat 67 = ''67''"
  by (simp_all add: show_nat.simps digits_def)

text \<open>
  C7, amended. When no game has a negative category value, the threshold 0 marks every
  game as a hit; the count of a window \<open>W\<close> is the smaller of \<open>W\<close> and the number of
  games, and the cell of a window reads 100% when at least that many games are available.
  With fewer games the denominator of the cell is still \<open>W\<close>: the cell reads
  \<open>n/W\<close> for the \<open>n\<close> games there are, with the nearest integer to \<open>100 * n / W\<close>, which is
  below 100.
\<close>

theorem zero_threshold_all_hits:
  assumes "\<forall>g \<in> set df. 0 \<le> g_col cat g"
  shows "hits df cat 0 = replicate (length df) True
    \<and> series_sum (iloc_last w (hits df cat 0)) = min w (length df)
    \<and> calculate_hit_rates df cat [0]
        = [\<lparr>Trend = column_name cat @ '' '' @ ge_sign @ '' 0'',
             Last_10 = rate_cell (hits df cat 0) 10,
             Last_5 = rate_cell (hits df cat 0) 5,
             Last_3 = rate_cell (hits df cat 0) 3\<rparr>]
    \<and> (10 \<le> length df \<longrightarrow> rate_cell (hits df cat 0) 10 = ''10/10 (100%)'')
    \<and> (5 \<le> length df \<longrightarrow> rate_cell (hits df cat 0) 5 = ''5/5 (100%)'')
    \<and> (3 \<le> length df \<longrightarrow> rate_cell (hits df cat 0) 3 = ''3/3 (100%)'')
    \<and> rate_cell (hits df cat 0) 10
        = show_nat (min 10 (length df)) @ ''/10 (''
            @ show_nat (nearest_percent (min 10 (length df)) 10) @ ''%)''
    \<and> rate_cell (hits df cat 0) 5
        = show_nat (min 5 (length df)) @ ''/5 (''
            @ show_nat (nearest_percent (min 5 (length df)) 5) @ ''%)''
    \<and> rate_cell (hits df cat 0) 3
        = show_nat (min 3 (length df)) @ ''/3 (''
            @ show_nat (nearest_percent (min 3 (length df)) 3) @ ''%)''
    \<and> (length df < 10 \<longrightarrow> nearest_percent (min 10 (length df)) 10 < 100)
    \<and> (length df < 5 \<longrightarrow> nearest_percent (min 5 (length df)) 5 < 100)
    \<and> (length df < 3 \<longrightarrow> nearest_percent (min 3 (length df)) 3 < 100)"
proof -
  note h = hits_zero[OF assms]
  have c: "series_sum (iloc_last w (hits df cat 0)) = min w (length df)" for w
    unfolding h by (rule series_sum_replicate)
  have sc: "spec_hit_count df cat 0 w = min w (length df)" for w
    using c[of w] by (simp only: hit_count_eq)
  have row: "calculate_hit_rates df cat [0]
        = [\<lparr>Trend = column_name cat @ '' '' @ ge_sign @ '' 0'',
             Last_10 = rate_cell (hits df cat 0) 10,
             Last_5 = rate_cell (hits df cat 0) 5,
             Last_3 = rate_cell (hits df cat 0) 3\<rparr>]"
    by (simp add: calculate_hit_rates_def Let_def show_int_def show_nat.simps[of 0] digits_def)
  have r10: "10 \<le> length df \<longrightarrow> rate_cell (hits df cat 0) 10 = ''10/10 (100%)''"
    using percent_10_table(10)
    by (simp add: rate_cell_def c min_def show_nat.simps digits_def)
  have r5: "5 \<le> length df \<longrightarrow> rate_cell (hits df cat 0) 5 = ''5/5 (100%)''"
    using percent_5_table(5)
    by (simp add: rate_cell_def c min_def show_nat.simps digits_def)
  have r3: "3 \<le> length df \<longrightarrow> rate_cell (hits df cat 0) 3 = ''3/3 (100%)''"
    using percent_3_table(3)
    by (simp add: rate_cell_def c min_def show_nat.simps digits_def)
  have g10: "rate_cell (hits df cat 0) 10
        = show_nat (min 10 (length df)) @ ''/10 (''
            @ show_nat (nearest_percent (min 10 (length df)) 10) @ ''%)''"
    unfolding rate_cell_spec spec_cell_def sc by simp
  have g5: "rate_cell (hits df cat 0) 5
        = show_nat (min 5 (length df)) @ ''/5 (''
            @ show_nat (nearest_percent (min 5 (length df)) 5) @ ''%)''"
    unfolding rate_cell_spec spec_cell_def sc by (simp add: show_nat_small)
  have g3: "rate_cell (hits df cat 0) 3
        = show_nat (min 3 (length df)) @ ''/3 (''
            @ show_nat (nearest_percent (min 3 (length df)) 3) @ ''%)''"
    unfolding rate_cell_spec spec_cell_def sc by (simp add: show_nat_small)
  have b10: "length df < 10 \<longrightarrow> nearest_percent (min 10 (length df)) 10 < 100"
    by (simp add: nearest_percent_def min_def div_less_iff_less_mult)
  have b5: "length df < 5 \<longrightarrow> nearest_percent (min 5 (length df)) 5 < 100"
    by (simp add: nearest_percent_def min_def div_less_iff_less_mult)
  have b3: "length df < 3 \<longrightarrow> nearest_percent (min 3 (length df)) 3 < 100"
    by (simp add: nearest_percent_def min_def div_less_iff_less_mult)
  show ?thesis
    by (rule conjI[OF h], rule conjI[OF c], rule conjI[OF row], rule conjI[OF r10],
        rule conjI[OF r5], rule conjI[OF r3], rule conjI[OF g10], rule conjI[OF g5],
        rule conjI[OF g3], rule conjI[OF b10], rule conjI[OF b5], rule b3)
qed

theorem zero_threshold_all_hits_witness:
  "map (g_col Home_Runs) ten_games = [0, 1, 0, 2, 1, 0, 0, 1, 0, 3] \<and> 10 \<le> length ten_games
   \<and> calculate_hit_rates ten_games Home_Runs [0]
     = [\<lparr>Trend = ''HR '' @ ge_sign @ '' 0'', Last_10 = ''10/10 (100%)'',
          Last_5 = ''5/5 (100%)'', Last_3 = ''3/3 (100%)''\<rparr>]
   \<and> map (g_col Home_Runs) [hr_line 1 0, hr_line 2 1] = [0, 1]
   \<and> length [hr_line 1 0, hr_line 2 1] < 3
   \<and> calculate_hit_rates [hr_line 1 0, hr_line 2 1] Home_Runs [0]
     = [\<lparr>Trend = ''HR '' @ ge_sign @ '' 0'', Last_10 = ''2/10 (20%)'',
          Last_5 = ''2/5 (40%)'', Last_3 = ''2/3 (67%)''\<rparr>]
   \<and> nearest_percent 2 3 < 100"
proof -
  have n: "\<forall>g \<in> set ten_games. 0 \<le> g_col Home_Runs g"
    by (simp add: ten_games_def hr_line_def)
  have l: "length ten_games = 10" by (simp add: ten_games_def)
  note t = zero_threshold_all_hits [OF n, of 10]
  have row: "calculate_hit_rates ten_games Home_Runs [0]
        = [\<lparr>Trend = column_name Home_Runs @ '' '' @ ge_sign @ '' 0'',
             Last_10 = rate_cell (hits ten_games Home_Runs 0) 10,
             Last_5 = rate_cell (hits ten_games Home_Runs 0) 5,
             Last_3 = rate_cell (hits ten_games Home_Runs 0) 3\<rparr>]"
    by (rule t[THEN conjunct2, THEN conjunct2, THEN conjunct1])
  have l10: "10 \<le> length ten_games" "5 \<le> length ten_games" "3 \<le> length ten_games"
    using l by simp_all
  have c10: "rate_cell (hits ten_games Home_Runs 0) 10 = ''10/10 (100%)''"
    by (rule t[THEN conjunct2, THEN conjunct2, THEN conjunct2, THEN conjunct1, THEN mp,
          OF l10(1)])
  have c5: "rate_cell (hits ten_games Home_Runs 0) 5 = ''5/5 (100%)''"
    by (rule t[THEN conjunct2, THEN conjunct2, THEN conjunct2, THEN conjunct2, THEN conjunct1,
          THEN mp, OF l10(2)])
  have c3: "rate_cell (hits ten_games Home_Runs 0) 3 = ''3/3 (100%)''"
    by (rule t[THEN conjunct2, THEN conjunct2, THEN conjunct2, THEN conjunct2, THEN conjunct2,
          THEN conjunct1, THEN mp, OF l10(3)])
  have vals: "map (g_col Home_Runs) ten_games = [0, 1, 0, 2, 1, 0, 0, 1, 0, 3]"
    by (simp add: ten_games_def hr_line_def)
  have first: "calculate_hit_rates ten_games Home_Runs [0]
     = [\<lparr>Trend = ''HR '' @ ge_sign @ '' 0'', Last_10 = ''10/10 (100%)'',
          Last_5 = ''5/5 (100%)'', Last_3 = ''3/3 (100%)''\<rparr>]"
    unfolding row c10 c5 c3 by simp
  have n2: "\<forall>g \<in> set [hr_line 1 0, hr_line 2 1]. 0 \<le> g_col Home_Runs g"
    by (simp add: hr_line_def)
  note u = zero_threshold_all_hits [OF n2, of 10]
  note u6 = u[THEN conjunct2, THEN conjunct2, THEN conjunct2, THEN conjunct2, THEN conjunct2,
      THEN conjunct2]
  have row2: "calculate_hit_rates [hr_line 1 0, hr_line 2 1] Home_Runs [0]
        = [\<lparr>Trend = column_name Home_Runs @ '' '' @ ge_sign @ '' 0'',
             Last_10 = rate_cell (hits [hr_line 1 0, hr_line 2 1] Home_Runs 0) 10,
             Last_5 = rate_cell (hits [hr_line 1 0, hr_line 2 1] Home_Runs 0) 5,
             Last_3 = rate_cell (hits [hr_line 1 0, hr_line 2 1] Home_Runs 0) 3\<rparr>]"
    by (rule u[THEN conjunct2, THEN conjunct2, THEN conjunct1])
  have np: "nearest_percent 2 10 = 20" "nearest_percent 2 5 = 40" "nearest_percent 2 3 = 67"
    by (simp_all add: nearest_percent_def)
  have m: "min 10 (length [hr_line 1 0, hr_line 2 1]) = 2"
    "min 5 (length [hr_line 1 0, hr_line 2 1]) = 2"
    "min 3 (length [hr_line 1 0, hr_line 2 1]) = 2"
    by simp_all
  have d10: "rate_cell (hits [hr_line 1 0, hr_line 2 1] Home_Runs 0) 10 = ''2/10 (20%)''"
    unfolding u6[THEN conjunct1] m np show_nat_small by simp
  have d5: "rate_cell (hits [hr_line 1 0, hr_line 2 1] Home_Runs 0) 5 = ''2/5 (40%)''"
    unfolding u6[THEN conjunct2, THEN conjunct1] m np show_nat_small by simp
  have d3: "rate_cell (hits [hr_line 1 0, hr_line 2 1] Home_Runs 0) 3 = ''2/3 (67%)''"
    unfolding u6[THEN conjunct2, THEN conjunct2, THEN conjunct1] m np show_nat_small by simp
  have s3: "length [hr_line 1 0, hr_line 2 1] < 3" by simp
  have b3: "nearest_percent 2 3 < 100"
    using u6[THEN conjunct2, THEN conjunct2, THEN conjunct2, THEN conjunct2, THEN conjunct2,
        THEN mp, OF s3]
    unfolding m .
  have second: "calculate_hit_rates [hr_line 1 0, hr_line 2 1] Home_Runs [0]
     = [\<lparr>Trend = ''HR '' @ ge_sign @ '' 0'', Last_10 = ''2/10 (20%)'',
          Last_5 = ''2/5 (40%)'', Last_3 = ''2/3 (67%)''\<rparr>]"
    unfolding row2 d10 d5 d3 by simp
  have vals2: "map (g_col Home_Runs) [hr_line 1 0, hr_line 2 1] = [0, 1]"
    by (simp add: hr_line_def)
  show ?thesis
    by (rule conjI[OF vals], rule conjI[OF l10(1)], rule conjI[OF first], rule conjI[OF vals2],
        rule conjI[OF s3], rule conjI[OF second], rule b3)
qed

section \<open>Predictor: properties\<close>





lemma weights_nth:
  "weights ! 0 = fl64 (4 / 10)" "weights ! 1 = fl64 (3 / 10)" "weights ! 2 = fl64 (3 / 10)"
  by (simp_all add: weights_def)

lemma inf_of_sign_simps [simp]: "inf_of_sign True = PosInf" "inf_of_sign False = NegInf"
  by (simp_all add: inf_of_sign_def)



lemma literals:
  "fl64 (3 / 10) = Finite (5404319552844595 / 18014398509481984)"
  "fl64 (1 / 2) = Finite (1 / 2)"
  "fl64 (1 / 5) = Finite (3602879701896397 / 18014398509481984)"
  "fl64 (4 / 10) = Finite (3602879701896397 / 9007199254740992)"
  "fl64 (33 / 100) = Finite (5944751508129055 / 18014398509481984)"
  "fl64 (2 / 100) = Finite (5764607523034235 / 288230376151711744)"
  "fl64 (3 / 100) = Finite (1080863910568919 / 36028797018963968)"
proof -
  show "fl64 (3 / 10) = Finite (5404319552844595 / 18014398509481984)"
    by (rule fl64_nearest[where e = "- 2" and m = 5404319552844595]) simp_all
  show "fl64 (1 / 2) = Finite (1 / 2)"
    by (rule fl64_nearest[where e = "- 1" and m = 4503599627370496]) simp_all
  show "fl64 (1 / 5) = Finite (3602879701896397 / 18014398509481984)"
    by (rule fl64_nearest[where e = "- 3" and m = 7205759403792794]) simp_all
  show "fl64 (4 / 10) = Finite (3602879701896397 / 9007199254740992)"
    by (rule fl64_nearest[where e = "- 2" and m = 7205759403792794]) simp_all
  show "fl64 (33 / 100) = Finite (5944751508129055 / 18014398509481984)"
    by (rule fl64_nearest[where e = "- 2" and m = 5944751508129055]) simp_all
  show "fl64 (2 / 100) = Finite (5764607523034235 / 288230376151711744)"
    by (rule fl64_nearest[where e = "- 6" and m = 5764607523034235]) simp_all
  show "fl64 (3 / 100) = Finite (1080863910568919 / 36028797018963968)"
    by (rule fl64_nearest[where e = "- 6" and m = 8646911284551352]) simp_all
qed







lemma in_rangeE:
  assumes "in_range x"
  obtains a where "x = Finite a" and "\<bar>a\<bar> < 2 powi 1024"
  using assms by (cases x) (simp_all del: power_int_numeral)

lemma fl64_not_NaN [simp]: "fl64 x \<noteq> NaN"
  by (simp add: fl64_def overflow_def)

lemma fle_NegInf [simp]: "fle NegInf y = (y \<noteq> NaN)"
  by (cases y) simp_all

lemma fle_PosInf [simp]: "fle x PosInf = (x \<noteq> NaN)"
  by (cases x) simp_all

lemma round_pos_bound:
  assumes "0 < a" and "a < 2 powi 1023"
  shows "round_pos a \<le> 2 powi 1023"
proof -
  have "ilog2 a \<le> 1022" using pow2_exp_less[OF ilog2_bounds(1)[OF assms(1)], of 1022] assms(2)
    by simp
  then have "max (ilog2 a) (- 1022) + 1 \<le> 1023" by simp
  then have "(2::rat) powi (max (ilog2 a) (- 1022) + 1) \<le> 2 powi 1023"
    by (intro power_int_increasing) simp_all
  then show ?thesis using round_pos_upper[OF assms(1)] by linarith
qed

lemma fl64_finite:
  assumes "\<bar>x\<bar> < 2 powi 1023"
  shows "fl64 x = Finite (round_nearest x)"
proof -
  have lt: "(2::rat) powi 1023 < 2 powi 1024" by (intro power_int_strict_increasing) simp_all
  have "\<bar>round_nearest x\<bar> \<le> 2 powi 1023"
  proof (cases "x = 0")
    case True
    then show ?thesis by (simp add: round_nearest_def)
  next
    case False
    show ?thesis
    proof (cases "x < 0")
      case True
      then have "round_pos (- x) \<le> 2 powi 1023" "0 \<le> round_pos (- x)"
        using assms round_pos_bound[of "- x"] round_pos_nonneg[of "- x"] by simp_all
      then show ?thesis using True by (simp add: round_nearest_def)
    next
      case f: False
      then have "round_pos x \<le> 2 powi 1023" "0 \<le> round_pos x"
        using assms False round_pos_bound[of x] round_pos_nonneg[of x] by simp_all
      then show ?thesis using f False by (simp add: round_nearest_def)
    qed
  qed
  then have "- (2 powi 1023) \<le> round_nearest x" and "round_nearest x \<le> 2 powi 1023"
    by (simp_all only: abs_le_iff minus_le_iff)
  then have "\<not> 2 powi 1024 \<le> round_nearest x" and "\<not> round_nearest x \<le> - (2 powi 1024)"
    using lt by linarith+
  then show ?thesis by (simp only: fl64_def overflow_def if_False)
qed

lemma weight_product_mono:
  assumes "\<bar>a\<bar> < 2 powi 1024" and "\<bar>b\<bar> < 2 powi 1024" and "a \<le> b"
    and "0 \<le> w" and "w \<le> 1 / 2"
  shows "\<exists>p q. fmul (Finite a) (Finite w) = Finite p \<and> fmul (Finite b) (Finite w) = Finite q
    \<and> p \<le> q"
proof -
  have "(2::rat) powi (1023 + 1) = 2 powi 1023 * 2 powi 1" by (rule power_int_add) simp
  then have half: "(2::rat) powi 1024 * (1 / 2) = 2 powi 1023"
    by (simp del: power_int_numeral)
  have bound: "\<bar>x * w\<bar> < 2 powi 1023" if "\<bar>x\<bar> < 2 powi 1024" for x
  proof -
    have "\<bar>x * w\<bar> = \<bar>x\<bar> * w" using assms(4) by (simp add: abs_mult)
    also have "\<dots> \<le> \<bar>x\<bar> * (1 / 2)" using assms(5) by (intro mult_left_mono) simp_all
    also have "\<dots> < 2 powi 1024 * (1 / 2)" using that by (intro mult_strict_right_mono) simp_all
    finally show ?thesis unfolding half .
  qed
  have "a * w \<le> b * w" using assms(3,4) by (rule mult_right_mono)
  then have "round_nearest (a * w) \<le> round_nearest (b * w)" by (rule round_nearest_mono)
  then show ?thesis
    using fl64_finite[OF bound[OF assms(1)]] fl64_finite[OF bound[OF assms(2)]] by simp
qed

lemma fadd_finite_mono:
  assumes "fle x y" and "c \<le> d"
  shows "fle (fadd x (Finite c)) (fadd y (Finite d))"
proof (cases x)
  case (Finite a)
  show ?thesis
  proof (cases y)
    case (Finite b)
    then show ?thesis using assms \<open>x = Finite a\<close> by (simp add: fl64_mono)
  qed (use assms Finite in simp_all)
next
  case NaN
  then show ?thesis using assms by simp
next
  case PosInf
  then show ?thesis using assms by (cases y) simp_all
next
  case NegInf
  then show ?thesis using assms by (cases y) simp_all
qed

lemma fmul_pos_mono:
  assumes "fle x y" and "0 < c"
  shows "fle (fmul x (Finite c)) (fmul y (Finite c))"
proof (cases x)
  case (Finite a)
  show ?thesis
  proof (cases y)
    case (Finite b)
    then have "a * c \<le> b * c" using assms \<open>x = Finite a\<close> by (simp add: mult_right_mono)
    then show ?thesis using Finite \<open>x = Finite a\<close> by (simp add: fl64_mono)
  qed (use assms Finite in simp_all)
next
  case NaN
  then show ?thesis using assms by simp
next
  case PosInf
  then show ?thesis using assms by (cases y) simp_all
next
  case NegInf
  then show ?thesis using assms by (cases y) simp_all
qed

lemma rint_mono:
  assumes "fle x y"
  shows "fle (rint x) (rint y)"
proof (cases x)
  case (Finite a)
  then show ?thesis using assms by (cases y) (simp_all add: round_half_even_mono)
next
  case NaN
  then show ?thesis using assms by simp
next
  case PosInf
  then show ?thesis using assms by (cases y) simp_all
next
  case NegInf
  then show ?thesis using assms by (cases y) simp_all
qed

lemma fdiv_pos_mono:
  assumes "fle x y" and "0 < c"
  shows "fle (fdiv x (Finite c)) (fdiv y (Finite c))"
proof (cases x)
  case (Finite a)
  show ?thesis
  proof (cases y)
    case (Finite b)
    then have "a / c \<le> b / c" using assms \<open>x = Finite a\<close> by (simp add: divide_right_mono)
    then show ?thesis using Finite \<open>x = Finite a\<close> assms(2) by (simp add: fl64_mono)
  qed (use assms Finite in simp_all)
next
  case NaN
  then show ?thesis using assms by simp
next
  case PosInf
  then show ?thesis using assms by (cases y) simp_all
next
  case NegInf
  then show ?thesis using assms by (cases y) simp_all
qed

lemma np_round_mono:
  assumes "fle x y"
  shows "fle (np_round x n) (np_round y n)"
proof (cases "n = 0")
  case True
  then show ?thesis using rint_mono[OF assms] by (simp add: np_round_def)
next
  case False
  have p: "(0::rat) < 10 ^ n" by simp
  have "fle (fdiv (rint (fmul x (Finite (10 ^ n)))) (Finite (10 ^ n)))
      (fdiv (rint (fmul y (Finite (10 ^ n)))) (Finite (10 ^ n)))"
    by (intro fdiv_pos_mono rint_mono fmul_pos_mono assms p)
  then show ?thesis using False by (simp add: np_round_def)
qed

lemma weight_bounds:
  "0 \<le> (5404319552844595 / 18014398509481984 :: rat)"
  "(5404319552844595 / 18014398509481984 :: rat) \<le> 1 / 2"
  "0 \<le> (3602879701896397 / 9007199254740992 :: rat)"
  "(3602879701896397 / 9007199254740992 :: rat) \<le> 1 / 2"
  by simp_all

text \<open>
  C10. For finite inputs, the predictor is monotone in each argument: when each average of
  the first triple is at most the corresponding average of the second, the first predicted
  value is at most the second. Rounding to the nearest float, the positive weights and the
  rounding to two decimals all preserve the order.
\<close>

theorem predictor_monotone:
  assumes "in_range s1" and "in_range v1" and "in_range r1"
    and "in_range s2" and "in_range v2" and "in_range r2"
    and "fle s1 s2" and "fle v1 v2" and "fle r1 r2"
  shows "fle (predict_next_game_stat s1 v1 r1) (predict_next_game_stat s2 v2 r2)"
proof -
  obtain a1 where a1: "s1 = Finite a1" "\<bar>a1\<bar> < 2 powi 1024"
    using assms(1) by (rule in_rangeE)
  obtain b1 where b1: "v1 = Finite b1" "\<bar>b1\<bar> < 2 powi 1024"
    using assms(2) by (rule in_rangeE)
  obtain c1 where c1: "r1 = Finite c1" "\<bar>c1\<bar> < 2 powi 1024"
    using assms(3) by (rule in_rangeE)
  obtain a2 where a2: "s2 = Finite a2" "\<bar>a2\<bar> < 2 powi 1024"
    using assms(4) by (rule in_rangeE)
  obtain b2 where b2: "v2 = Finite b2" "\<bar>b2\<bar> < 2 powi 1024"
    using assms(5) by (rule in_rangeE)
  obtain c2 where c2: "r2 = Finite c2" "\<bar>c2\<bar> < 2 powi 1024"
    using assms(6) by (rule in_rangeE)
  note eq = a1(1) b1(1) c1(1) a2(1) b2(1) c2(1)
  note r = a1(2) b1(2) c1(2) a2(2) b2(2) c2(2)
  have le: "a1 \<le> a2" "b1 \<le> b2" "c1 \<le> c2" using assms(7-9) unfolding eq by simp_all
  obtain p1 p2 where p: "fmul (Finite a1) (weights ! 0) = Finite p1"
      "fmul (Finite a2) (weights ! 0) = Finite p2" "p1 \<le> p2"
    using weight_product_mono[OF r(1) r(4) le(1) weight_bounds(3,4)]
    unfolding weights_nth literals by blast
  obtain q1 q2 where q: "fmul (Finite b1) (weights ! 1) = Finite q1"
      "fmul (Finite b2) (weights ! 1) = Finite q2" "q1 \<le> q2"
    using weight_product_mono[OF r(2) r(5) le(2) weight_bounds(1,2)]
    unfolding weights_nth literals by blast
  obtain t1 t2 where t: "fmul (Finite c1) (weights ! 2) = Finite t1"
      "fmul (Finite c2) (weights ! 2) = Finite t2" "t1 \<le> t2"
    using weight_product_mono[OF r(3) r(6) le(3) weight_bounds(1,2)]
    unfolding weights_nth literals by blast
  have "fle (Finite p1) (Finite p2)" using p(3) by simp
  then have "fle (fadd (Finite p1) (Finite q1)) (fadd (Finite p2) (Finite q2))"
    using q(3) by (rule fadd_finite_mono)
  then have "fle (fadd (fadd (Finite p1) (Finite q1)) (Finite t1))
      (fadd (fadd (Finite p2) (Finite q2)) (Finite t2))"
    using t(3) by (rule fadd_finite_mono)
  then show ?thesis
    unfolding predict_next_game_stat_def eq p q t by (rule np_round_mono)
qed



text \<open>
  C10, as stated, fails at the infinities: the first average of both triples is minus
  infinity and the second average goes from 0 to plus infinity; the first predicted value
  is minus infinity, the second is NaN, and no comparison with NaN holds.
\<close>

theorem predictor_not_monotone_at_infinity:
  "fle NegInf NegInf \<and> fle (Finite 0) PosInf \<and> fle (Finite 0) (Finite 0)
   \<and> predict_next_game_stat NegInf (Finite 0) (Finite 0) = NegInf
   \<and> predict_next_game_stat NegInf PosInf (Finite 0) = NaN
   \<and> \<not> fle (predict_next_game_stat NegInf (Finite 0) (Finite 0))
          (predict_next_game_stat NegInf PosInf (Finite 0))"
proof -
  have a: "predict_next_game_stat NegInf (Finite 0) (Finite 0) = NegInf"
    unfolding predict_next_game_stat_def weights_nth literals by (simp add: np_round_def)
  have b: "predict_next_game_stat NegInf PosInf (Finite 0) = NaN"
    unfolding predict_next_game_stat_def weights_nth literals by (simp add: np_round_def)
  show ?thesis unfolding a b by simp
qed

lemma fadd_NaN_right [simp]: "fadd x NaN = NaN"
  by (cases x) simp_all

lemma fmul_NaN_right [simp]: "fmul x NaN = NaN"
  by (cases x) simp_all

lemma np_round_NaN [simp]: "np_round NaN n = NaN"
  by (simp add: np_round_def)

lemma predict_NaN:
  "predict_next_game_stat NaN v r = NaN"
  "predict_next_game_stat s NaN r = NaN"
  "predict_next_game_stat s v NaN = NaN"
  by (simp_all add: predict_next_game_stat_def)

lemma no_bos: "\<not> str_contains ''BOS'' ''NYY''"
  by (simp add: str_contains_def lower_def)

lemma sample_filtered:
  "df_filtered ''BOS'' sample_statcast = sample_statcast\<lparr>rows := []\<rparr>"
  by (simp add: df_filtered_def sample_statcast_def classify_simps pa_single_def
      pa_home_run_def no_bos)

lemma game_stats_no_rows:
  assumes "set key_columns \<union> set stat_columns \<subseteq> set (columns df)"
  shows "game_stats (df\<lparr>rows := []\<rparr>) res = (res = Inr [])"
proof -
  have "groupby_sum (df\<lparr>rows := []\<rparr>) = Inr []"
    using groupby_sum_ok[of "df\<lparr>rows := []\<rparr>"] assms by (simp add: group_keys_def)
  then show ?thesis by (auto simp: game_stats_def last_games_Nil)
qed

text \<open>
  C5. An undefined average is not replaced by 0. The mean of no game is NaN and the
  predictor returns NaN for it; when the opponent filter matches no event, line 200 sets
  the opponent average to 0 but the recent average of line 201 is NaN, and every predicted
  value is NaN.
\<close>

theorem undefined_average_not_zeroed:
  "mean [] = NaN
   \<and> predict_next_game_stat NaN v r = NaN
   \<and> predict_next_game_stat s NaN r = NaN
   \<and> predict_next_game_stat s v NaN = NaN
   \<and> predict_next_game_stat (fl64 (30 / 100)) (float_of_int 0) NaN = NaN
   \<and> stat_value statcast_df (statcast_df\<lparr>rows := []\<rparr>) [] cat = NaN
   \<and> get_statcast_data parse sample_frame = Inr sample_statcast
   \<and> stat_line sample_statcast ''BOS'' res
       = (res = Inr [(Singles, NaN), (Doubles, NaN), (Triples, NaN), (Home_Runs, NaN),
                     (Total_Bases, NaN)])"
proof -
  have m: "mean [] = NaN" by (simp add: mean_def)
  have "stat_line sample_statcast ''BOS'' res
       = (res = Inr [(Singles, NaN), (Doubles, NaN), (Triples, NaN), (Home_Runs, NaN),
                     (Total_Bases, NaN)])"
    unfolding stat_line_def sample_filtered game_stats_no_rows[OF sample_columns_ok]
    by (simp add: categories_def stat_value_def m predict_NaN)
  moreover have "stat_value statcast_df (statcast_df\<lparr>rows := []\<rparr>) [] cat = NaN"
    by (simp add: stat_value_def empty_def m predict_NaN)
  ultimately show ?thesis using m predict_NaN sample_result by simp
qed

theorem predictor_monotone_witness:
  "in_range (Finite 0) \<and> in_range (fl64 (3 / 10)) \<and> in_range (fl64 (1 / 2))
   \<and> in_range (fl64 (1 / 5))
   \<and> fle (Finite 0) (fl64 (3 / 10)) \<and> fle (Finite 0) (fl64 (1 / 2)) \<and> fle (Finite 0) (fl64 (1 / 5))
   \<and> predict_next_game_stat (Finite 0) (Finite 0) (Finite 0) = Finite 0
   \<and> fle (predict_next_game_stat (Finite 0) (Finite 0) (Finite 0))
        (predict_next_game_stat (fl64 (3 / 10)) (fl64 (1 / 2)) (fl64 (1 / 5)))"
proof -
  have i: "in_range (Finite 0)" "in_range (fl64 (3 / 10))" "in_range (fl64 (1 / 2))"
      "in_range (fl64 (1 / 5))"
    by (simp_all add: literals)
  have l: "fle (Finite 0) (fl64 (3 / 10))" "fle (Finite 0) (fl64 (1 / 2))"
      "fle (Finite 0) (fl64 (1 / 5))"
    by (simp_all add: literals)
  have z: "predict_next_game_stat (Finite 0) (Finite 0) (Finite 0) = Finite 0"
    unfolding predict_next_game_stat_def weights_nth literals by (simp add: np_round_def)
  show ?thesis
    using i l z predictor_monotone [OF i(1) i(1) i(1) i(2) i(3) i(4) l] by simp
qed

end
